theory Spec2Isabelle
  imports Main "HOL-Library.Multiset"
begin

section \<open>Data model (package event, model)\<close>

text \<open>
  The Go type \<open>State\<close> is an integer with the two named constants \<open>Active = 0\<close> and
  \<open>Finished = 1\<close>. \<open>primitive.ObjectID\<close> is an opaque twelve byte identifier; here it
  is a natural number. \<open>time.Time\<close> is a point on the clock with nanosecond
  resolution: the integer number of nanoseconds since the epoch. The reading of the
  clock that a call takes with \<open>time.Now()\<close> is an argument of the model.
\<close>

datatype State = Active | Finished

type_synonym ObjectID = nat

type_synonym Time = int

definition NilObjectID :: ObjectID where
  "NilObjectID = 0"

record Event =
  ID :: ObjectID
  Type :: string
  State :: State
  StartedAt :: Time
  FinishedAt :: "Time option"

fun State_String :: "State \<Rightarrow> string" where
  "State_String Active = ''started''"
| "State_String Finished = ''finished''"

record EventResponse =
  r_ID :: ObjectID
  r_Type :: string
  r_State :: string
  r_StartedAt :: Time
  r_FinishedAt :: "Time option"

definition ToResponse :: "Event \<Rightarrow> EventResponse" where
  "ToResponse e =
     \<lparr>r_ID = ID e, r_Type = Type e, r_State = State_String (State e),
      r_StartedAt = StartedAt e, r_FinishedAt = FinishedAt e\<rparr>"

section \<open>The document store\<close>

text \<open>
  The repository talks to one MongoDB collection through the driver calls
  \<open>FindOne\<close>, \<open>InsertOne\<close>, \<open>FindOneAndUpdate\<close> and \<open>Find\<close>. The collection is the
  list of its documents in insertion order together with the next identifier the
  store hands out. Every driver call can fail for a reason of its own (connection
  lost, context cancelled, a document that does not decode); the model takes that as
  the argument \<open>fault\<close>: \<open>None\<close> when the call goes through, \<open>Some m\<close> when it fails
  with message \<open>m\<close>, in which case the collection is left as it was.
\<close>

datatype error = ErrNoDocuments | StorageError string | UnexpectedInsertedID

type_synonym fault = "string option"

record Collection =
  docs :: "Event list"
  next_oid :: ObjectID

text \<open>
  A document holds a time as a BSON date, a whole number of milliseconds since the
  epoch: what is written loses the part of the time below the millisecond, and what
  is read back is the time as written. \<open>Marshal\<close> is the document the driver
  writes for an \<open>Event\<close>.
\<close>

definition bson_DateTime :: "Time \<Rightarrow> Time" where
  "bson_DateTime t = t div 1000000 * 1000000"

definition Marshal :: "Event \<Rightarrow> Event" where
  "Marshal e =
     e\<lparr>StartedAt := bson_DateTime (StartedAt e),
       FinishedAt := map_option bson_DateTime (FinishedAt e)\<rparr>"

text \<open>A query document \<open>bson.M\<close> over the two keys the repository uses.\<close>

record bsonM =
  m_type :: "string option"
  m_state :: "State option"

definition matches :: "bsonM \<Rightarrow> Event \<Rightarrow> bool" where
  "matches flt e =
     ((case m_type flt of None \<Rightarrow> True | Some t \<Rightarrow> Type e = t) \<and>
      (case m_state flt of None \<Rightarrow> True | Some s \<Rightarrow> State e = s))"

definition FindOne ::
  "fault \<Rightarrow> bsonM \<Rightarrow> Collection \<Rightarrow> (error + Event) \<times> Collection" where
  "FindOne fault flt col =
     (case fault of
        Some m \<Rightarrow> (Inl (StorageError m), col)
      | None \<Rightarrow>
          (case find (matches flt) (docs col) of
             None \<Rightarrow> (Inl ErrNoDocuments, col)
           | Some e \<Rightarrow> (Inr e, col)))"

text \<open>
  \<open>InsertOne\<close> returns the inserted identifier as a value of the empty interface,
  which the caller has to cast. The document that \<open>Create\<close> hands over carries the
  zero identifier, which the \<open>omitempty\<close> tag leaves out, so the identifier is
  generated: the store's next one, never handed out before.
\<close>

datatype InsertedID = OID ObjectID | OtherID

definition InsertOne ::
  "fault \<Rightarrow> Event \<Rightarrow> Collection \<Rightarrow> (error + InsertedID) \<times> Collection" where
  "InsertOne fault ev col =
     (case fault of
        Some m \<Rightarrow> (Inl (StorageError m), col)
      | None \<Rightarrow>
          (let oid = next_oid col
           in (Inr (OID oid),
               col\<lparr>docs := docs col @ [(Marshal ev)\<lparr>ID := oid\<rparr>], next_oid := Suc oid\<rparr>)))"

text \<open>
  The update document \<open>{"$set": {"state": s, "finished_at": t}}\<close>, and
  \<open>FindOneAndUpdate\<close> with \<open>ReturnDocument = After\<close>: the first matching document is
  rewritten in place, in one step, and the rewritten document is the result.
\<close>

record bsonSet =
  set_state :: State
  set_finished_at :: Time

definition apply_set :: "bsonSet \<Rightarrow> Event \<Rightarrow> Event" where
  "apply_set u e =
     e\<lparr>State := set_state u, FinishedAt := Some (bson_DateTime (set_finished_at u))\<rparr>"

fun update_first ::
  "(Event \<Rightarrow> bool) \<Rightarrow> (Event \<Rightarrow> Event) \<Rightarrow> Event list \<Rightarrow> (Event \<times> Event list) option" where
  "update_first P f [] = None"
| "update_first P f (e # es) =
     (if P e then Some (f e, f e # es)
      else (case update_first P f es of
              None \<Rightarrow> None
            | Some (r, es') \<Rightarrow> Some (r, e # es')))"

definition FindOneAndUpdate ::
  "fault \<Rightarrow> bsonM \<Rightarrow> bsonSet \<Rightarrow> Collection \<Rightarrow> (error + Event) \<times> Collection" where
  "FindOneAndUpdate fault flt upd col =
     (case fault of
        Some m \<Rightarrow> (Inl (StorageError m), col)
      | None \<Rightarrow>
          (case update_first (matches flt) (apply_set upd) (docs col) of
             None \<Rightarrow> (Inl ErrNoDocuments, col)
           | Some (e, ds) \<Rightarrow> (Inr e, col\<lparr>docs := ds\<rparr>)))"

text \<open>
  \<open>Find\<close> with its options: the sort on \<open>started_at\<close> (a negative direction is
  descending), then the skip, then the limit, whatever the order in which the options
  were set. The sort key is \<open>started_at\<close> alone, and the store is free in the order
  of documents with equal keys: that order is the store's choice for the query, the
  argument \<open>tie\<close>, a rank the store gives each document, by which documents with
  equal keys are ordered. The cursor is read in full by \<open>cursor.All\<close>, which can fail
  on its own.
\<close>

record FindOptions =
  Sort :: "int option"
  Skip :: "int option"
  Limit :: "int option"

definition apply_sort :: "(Event \<Rightarrow> nat) \<Rightarrow> int option \<Rightarrow> Event list \<Rightarrow> Event list" where
  "apply_sort tie s es =
     (case s of
        None \<Rightarrow> sort_key tie es
      | Some d \<Rightarrow>
          if d < 0 then sort_key (\<lambda>e. - StartedAt e) (sort_key tie es)
          else sort_key StartedAt (sort_key tie es))"

definition apply_skip :: "int option \<Rightarrow> Event list \<Rightarrow> Event list" where
  "apply_skip s es = (case s of None \<Rightarrow> es | Some n \<Rightarrow> drop (nat n) es)"

definition apply_limit :: "int option \<Rightarrow> Event list \<Rightarrow> Event list" where
  "apply_limit l es =
     (case l of None \<Rightarrow> es | Some n \<Rightarrow> if n = 0 then es else take (nat \<bar>n\<bar>) es)"

definition Find ::
  "(Event \<Rightarrow> nat) \<Rightarrow> fault \<Rightarrow> bsonM \<Rightarrow> FindOptions \<Rightarrow> Collection \<Rightarrow>
     (error + Event list) \<times> Collection" where
  "Find tie fault flt opts col =
     (case fault of
        Some m \<Rightarrow> (Inl (StorageError m), col)
      | None \<Rightarrow>
          (Inr (apply_limit (Limit opts) (apply_skip (Skip opts)
                  (apply_sort tie (Sort opts) (filter (matches flt) (docs col))))), col))"

definition cursor_All :: "fault \<Rightarrow> Event list \<Rightarrow> error + Event list" where
  "cursor_All fault cursor = (case fault of Some m \<Rightarrow> Inl (StorageError m) | None \<Rightarrow> Inr cursor)"

section \<open>EventRepository\<close>

definition EventRepository_FindActive ::
  "fault \<Rightarrow> string \<Rightarrow> Collection \<Rightarrow> (error + Event option) \<times> Collection" where
  "EventRepository_FindActive fault eventType col =
     (case FindOne fault \<lparr>m_type = Some eventType, m_state = Some Active\<rparr> col of
        (Inl err, col') \<Rightarrow>
          if err = ErrNoDocuments then (Inr None, col') else (Inl err, col')
      | (Inr event, col') \<Rightarrow> (Inr (Some event), col'))"

definition EventRepository_Create ::
  "fault \<Rightarrow> Time \<Rightarrow> string \<Rightarrow> Collection \<Rightarrow> (error + Event) \<times> Collection" where
  "EventRepository_Create fault now eventType col =
     (let event = \<lparr>ID = NilObjectID, Type = eventType, State = Active,
                   StartedAt = now, FinishedAt = None\<rparr>
      in case InsertOne fault event col of
           (Inl err, col') \<Rightarrow> (Inl err, col')
         | (Inr (OID oid), col') \<Rightarrow> (Inr (event\<lparr>ID := oid\<rparr>), col')
         | (Inr OtherID, col') \<Rightarrow> (Inl UnexpectedInsertedID, col'))"

definition EventRepository_Finish ::
  "fault \<Rightarrow> Time \<Rightarrow> string \<Rightarrow> Collection \<Rightarrow> (error + Event) \<times> Collection" where
  "EventRepository_Finish fault now eventType col =
     (let flt = \<lparr>m_type = Some eventType, m_state = Some Active\<rparr>;
          update = \<lparr>set_state = Finished, set_finished_at = now\<rparr>
      in case FindOneAndUpdate fault flt update col of
           (Inl err, col') \<Rightarrow>
             if err = ErrNoDocuments then (Inl ErrNoDocuments, col') else (Inl err, col')
         | (Inr updated, col') \<Rightarrow> (Inr updated, col'))"

definition EventRepository_List ::
  "(Event \<Rightarrow> nat) \<Rightarrow> fault \<Rightarrow> fault \<Rightarrow> int \<Rightarrow> int \<Rightarrow> string \<Rightarrow> Collection \<Rightarrow>
     (error + Event list) \<times> Collection" where
  "EventRepository_List tie fault_find fault_all offset limit eventType col =
     (let flt = \<lparr>m_type = (if eventType \<noteq> [] then Some eventType else None), m_state = None\<rparr>;
          opts0 = \<lparr>Sort = Some (- 1), Skip = None, Limit = None\<rparr>;
          opts1 = (if offset > 0 then opts0\<lparr>Skip := Some offset\<rparr> else opts0);
          opts = (if limit > 0 then opts1\<lparr>Limit := Some limit\<rparr> else opts1)
      in case Find tie fault_find flt opts col of
           (Inl err, col') \<Rightarrow> (Inl err, col')
         | (Inr cursor, col') \<Rightarrow>
             (case cursor_All fault_all cursor of
                Inl err \<Rightarrow> (Inl err, col')
              | Inr events \<Rightarrow> (Inr events, col')))"

section \<open>EventService\<close>

definition EventService_Start ::
  "fault \<Rightarrow> fault \<Rightarrow> Time \<Rightarrow> string \<Rightarrow> Collection \<Rightarrow> (error + Event) \<times> Collection" where
  "EventService_Start fault_find fault_insert now eventType col =
     (case EventRepository_FindActive fault_find eventType col of
        (Inl err, col') \<Rightarrow> (Inl err, col')
      | (Inr (Some active), col') \<Rightarrow> (Inr active, col')
      | (Inr None, col') \<Rightarrow> EventRepository_Create fault_insert now eventType col')"

definition EventService_Finish ::
  "fault \<Rightarrow> Time \<Rightarrow> string \<Rightarrow> Collection \<Rightarrow> (error + Event) \<times> Collection" where
  "EventService_Finish fault now eventType col =
     (case EventRepository_Finish fault now eventType col of
        (Inl err, col') \<Rightarrow>
          if err = ErrNoDocuments then (Inl ErrNoDocuments, col') else (Inl err, col')
      | (Inr event, col') \<Rightarrow> (Inr event, col'))"

definition EventService_List ::
  "(Event \<Rightarrow> nat) \<Rightarrow> fault \<Rightarrow> fault \<Rightarrow> int \<Rightarrow> int \<Rightarrow> string \<Rightarrow> Collection \<Rightarrow>
     (error + Event list) \<times> Collection" where
  "EventService_List tie fault_find fault_all offset limit eventType col =
     EventRepository_List tie fault_find fault_all offset limit eventType col"

section \<open>EventHandler\<close>

text \<open>
  \<open>regexp.MustCompile(`^[a-z0-9]+$`)\<close>: the pattern is a character class given by
  its ranges, repeated one or more times, between the anchors of the beginning and
  the end of the text. Go strings are byte sequences and the class holds ASCII bytes
  only. \<open>match_plus_end\<close> runs the repetition followed by the end anchor from the
  current position; \<open>MatchString\<close> starts it at the beginning of the text, where the
  first anchor holds it.
\<close>

type_synonym char_range = "char \<times> char"

definition in_range :: "char_range \<Rightarrow> char \<Rightarrow> bool" where
  "in_range r c = ((of_char (fst r) :: nat) \<le> of_char c \<and> (of_char c :: nat) \<le> of_char (snd r))"

definition in_class :: "char_range list \<Rightarrow> char \<Rightarrow> bool" where
  "in_class rs c = list_ex (\<lambda>r. in_range r c) rs"

fun match_plus_end :: "char_range list \<Rightarrow> string \<Rightarrow> bool" where
  "match_plus_end cls [] = False"
| "match_plus_end cls (c # cs) = (in_class cls c \<and> (cs = [] \<or> match_plus_end cls cs))"

definition typePattern :: "char_range list" where
  "typePattern = [(CHR ''a'', CHR ''z''), (CHR ''0'', CHR ''9'')]"

definition validateEventType :: "string \<Rightarrow> bool" where
  "validateEventType eventType = match_plus_end typePattern eventType"

text \<open>
  \<open>strconv.Atoi\<close> on a 64-bit platform: an optional sign, then one or more decimal
  digits and nothing else; a value outside the range of \<open>int\<close> is a range error.
\<close>

datatype NumError = ErrSyntax | ErrRange

definition is_digit :: "char \<Rightarrow> bool" where
  "is_digit c = in_range (CHR ''0'', CHR ''9'') c"

definition digit_val :: "char \<Rightarrow> int" where
  "digit_val c = int (of_char c) - int (of_char (CHR ''0''))"

fun parse_digits :: "string \<Rightarrow> int \<Rightarrow> int option" where
  "parse_digits [] acc = Some acc"
| "parse_digits (c # cs) acc =
     (if is_digit c then parse_digits cs (acc * 10 + digit_val c) else None)"

definition Atoi :: "string \<Rightarrow> NumError + int" where
  "Atoi s =
     (case s of
        [] \<Rightarrow> Inl ErrSyntax
      | c # cs \<Rightarrow>
          (let ds = (if c = CHR ''-'' \<or> c = CHR ''+'' then cs else s)
           in if ds = [] then Inl ErrSyntax
              else (case parse_digits ds 0 of
                      None \<Rightarrow> Inl ErrSyntax
                    | Some n \<Rightarrow>
                        (let v = (if c = CHR ''-'' then - n else n)
                         in if v < - (2 ^ 63) \<or> 2 ^ 63 - 1 < v then Inl ErrRange else Inr v))))"

text \<open>
  The request body as \<open>ShouldBindJSON\<close> sees it: not a JSON object that decodes into
  \<open>StartRequest\<close>, or an object with or without a string under the key \<open>type\<close>.
  The tag \<open>binding:"required"\<close> refuses a missing and an empty value.
\<close>

datatype json_body = BadJSON | JSONObject "string option"

record StartRequest =
  req_Type :: string

datatype bind_error = BindError

definition ShouldBindJSON :: "json_body \<Rightarrow> bind_error + StartRequest" where
  "ShouldBindJSON b =
     (case b of
        BadJSON \<Rightarrow> Inl BindError
      | JSONObject None \<Rightarrow> Inl BindError
      | JSONObject (Some t) \<Rightarrow> if t = [] then Inl BindError else Inr \<lparr>req_Type = t\<rparr>)"

text \<open>
  The messages of \<open>ErrorResponse\<close> are fixed texts of the source, one constructor
  each: the type is required and must not be empty; the type may hold lowercase
  letters and digits only; the event could not be created; no active event of the
  type was found; the event could not be finished; the offset must be a non-negative
  number; the limit must be a number from 0 to 100; the list could not be read.
\<close>

datatype message =
    MsgTypeRequired | MsgTypeFormat | MsgCreateFailed | MsgNoActiveEvent
  | MsgFinishFailed | MsgOffsetInvalid | MsgLimitInvalid | MsgListFailed

datatype payload = ErrorResponse message | EventJSON EventResponse | EventsJSON "Event list"

record Response =
  status :: nat
  body :: payload

definition StatusOK :: nat where
  "StatusOK = 200"

definition StatusBadRequest :: nat where
  "StatusBadRequest = 400"

definition StatusNotFound :: nat where
  "StatusNotFound = 404"

definition StatusInternalServerError :: nat where
  "StatusInternalServerError = 500"

definition JSON :: "nat \<Rightarrow> payload \<Rightarrow> Response" where
  "JSON code obj = \<lparr>status = code, body = obj\<rparr>"

text \<open>
  The handler holds its service in the field \<open>service\<close>; the model takes the service
  method it calls as an argument, a function on the state \<open>'s\<close> the service works on.
  The server wires in \<open>EventService_Start\<close>, \<open>EventService_Finish\<close> and
  \<open>EventService_List\<close> on the collection.
\<close>

definition EventHandler_Start ::
  "(string \<Rightarrow> 's \<Rightarrow> (error + Event) \<times> 's) \<Rightarrow> json_body \<Rightarrow> 's \<Rightarrow> Response \<times> 's" where
  "EventHandler_Start service_Start request s =
     (case ShouldBindJSON request of
        Inl err \<Rightarrow> (JSON StatusBadRequest (ErrorResponse MsgTypeRequired), s)
      | Inr req \<Rightarrow>
          if \<not> validateEventType (req_Type req)
          then (JSON StatusBadRequest (ErrorResponse MsgTypeFormat), s)
          else (case service_Start (req_Type req) s of
                  (Inl err, s') \<Rightarrow>
                    (JSON StatusInternalServerError (ErrorResponse MsgCreateFailed), s')
                | (Inr event, s') \<Rightarrow> (JSON StatusOK (EventJSON (ToResponse event)), s')))"

definition EventHandler_Finish ::
  "(string \<Rightarrow> 's \<Rightarrow> (error + Event) \<times> 's) \<Rightarrow> json_body \<Rightarrow> 's \<Rightarrow> Response \<times> 's" where
  "EventHandler_Finish service_Finish request s =
     (case ShouldBindJSON request of
        Inl err \<Rightarrow> (JSON StatusBadRequest (ErrorResponse MsgTypeRequired), s)
      | Inr req \<Rightarrow>
          if \<not> validateEventType (req_Type req)
          then (JSON StatusBadRequest (ErrorResponse MsgTypeFormat), s)
          else (case service_Finish (req_Type req) s of
                  (Inl err, s') \<Rightarrow>
                    if err = ErrNoDocuments
                    then (JSON StatusNotFound (ErrorResponse MsgNoActiveEvent), s')
                    else (JSON StatusInternalServerError (ErrorResponse MsgFinishFailed), s')
                | (Inr event, s') \<Rightarrow> (JSON StatusOK (EventJSON (ToResponse event)), s')))"

text \<open>
  The query string of the request gives each parameter it names a value, which can
  be empty (\<open>?offset=\<close>). \<open>c.Query key\<close> is that value, and the empty string when the
  request has no parameter under the key.
\<close>

definition Query :: "(string \<rightharpoonup> string) \<Rightarrow> string \<Rightarrow> string" where
  "Query q key = (case q key of None \<Rightarrow> [] | Some v \<Rightarrow> v)"

definition EventHandler_List ::
  "(int \<Rightarrow> int \<Rightarrow> string \<Rightarrow> 's \<Rightarrow> (error + Event list) \<times> 's) \<Rightarrow> (string \<rightharpoonup> string) \<Rightarrow> 's \<Rightarrow>
     Response \<times> 's" where
  "EventHandler_List service_List q s =
     (let offsetStr = Query q ''offset''
      in case (if offsetStr \<noteq> []
               then (case Atoi offsetStr of
                       Inl err \<Rightarrow> None
                     | Inr offset \<Rightarrow> if offset < 0 then None else Some offset)
               else Some 0) of
           None \<Rightarrow> (JSON StatusBadRequest (ErrorResponse MsgOffsetInvalid), s)
         | Some offset \<Rightarrow>
             (let limitStr = Query q ''limit''
              in case (if limitStr \<noteq> []
                       then (case Atoi limitStr of
                               Inl err \<Rightarrow> None
                             | Inr limit \<Rightarrow> if limit < 0 \<or> limit > 100 then None else Some limit)
                       else Some 0) of
                   None \<Rightarrow> (JSON StatusBadRequest (ErrorResponse MsgLimitInvalid), s)
                 | Some limit \<Rightarrow>
                     (let eventType = Query q ''type''
                      in case service_List offset limit eventType s of
                           (Inl err, s') \<Rightarrow>
                             (JSON StatusInternalServerError (ErrorResponse MsgListFailed), s')
                         | (Inr events, s') \<Rightarrow> (JSON StatusOK (EventsJSON events), s'))))"

section \<open>Predicates on the store\<close>

text \<open>
  \<open>is_active t\<close> is the query of \<open>FindActive\<close> and \<open>Finish\<close>. Invariant I1, at most
  one active row for every type, says that the types of the active rows, listed row
  by row, have no repetition. \<open>store_ok\<close> says that the identifiers of the rows are
  pairwise different and all below the next identifier of the store; it holds of the
  empty collection and every operation keeps it. \<open>types_ok\<close> says that the type of
  every row passes the check of the handlers.
\<close>

definition is_active :: "string \<Rightarrow> Event \<Rightarrow> bool" where
  "is_active t e = (Type e = t \<and> State e = Active)"

definition has_active :: "string \<Rightarrow> Collection \<Rightarrow> bool" where
  "has_active t col = list_ex (is_active t) (docs col)"

definition active_types :: "Collection \<Rightarrow> string list" where
  "active_types col = map Type (filter (\<lambda>e. State e = Active) (docs col))"

definition I1 :: "Collection \<Rightarrow> bool" where
  "I1 col = distinct (active_types col)"

definition store_ok :: "Collection \<Rightarrow> bool" where
  "store_ok col = (distinct (map ID (docs col)) \<and> list_all (\<lambda>e. ID e < next_oid col) (docs col))"

definition types_ok :: "Collection \<Rightarrow> bool" where
  "types_ok col = list_all (\<lambda>e. validateEventType (Type e)) (docs col)"

section \<open>The list contract as the specification words it\<close>

text \<open>
  All stored rows, restricted to the rows of type \<open>f\<close> when \<open>f\<close> is not empty, ordered by
  \<open>startedAt\<close> descending, without the first \<open>k\<close> rows, and cut to at most \<open>m\<close> rows
  when \<open>m\<close> is positive. \<open>matching\<close> is the restriction and \<open>page\<close> the cut. The
  ordering is one sequence only when no two of the rows have the same start time;
  \<open>list_spec\<close> then is that sequence.
\<close>

definition matching :: "string \<Rightarrow> Event list \<Rightarrow> Event list" where
  "matching f rows = (if f \<noteq> [] then filter (\<lambda>e. Type e = f) rows else rows)"

definition page :: "nat \<Rightarrow> nat \<Rightarrow> Event list \<Rightarrow> Event list" where
  "page k m es = (if 0 < m then take m (drop k es) else drop k es)"

definition started_desc :: "Event list \<Rightarrow> bool" where
  "started_desc es = sorted_wrt (\<lambda>a b. StartedAt b \<le> StartedAt a) es"

definition list_spec ::
  "nat \<Rightarrow> nat \<Rightarrow> string \<Rightarrow> Event list \<Rightarrow> Event list" where
  "list_spec k m f rows = page k m (sort_key (\<lambda>e. - StartedAt e) (matching f rows))"

section \<open>Example stores\<close>

text \<open>Times are in nanoseconds: \<open>10000000\<close> is ten milliseconds after the epoch.\<close>

abbreviation ev_meeting :: Event where
  "ev_meeting \<equiv>
     \<lparr>ID = 0, Type = ''meeting'', State = Active, StartedAt = 10000000, FinishedAt = None\<rparr>"

abbreviation ev_call_done :: Event where
  "ev_call_done \<equiv>
     \<lparr>ID = 1, Type = ''call'', State = Finished, StartedAt = 12000000,
      FinishedAt = Some 15000000\<rparr>"

abbreviation ev_call :: Event where
  "ev_call \<equiv>
     \<lparr>ID = 2, Type = ''call'', State = Active, StartedAt = 16000000, FinishedAt = None\<rparr>"

abbreviation store2 :: Collection where
  "store2 \<equiv> \<lparr>docs = [ev_meeting, ev_call_done], next_oid = 2\<rparr>"

abbreviation store3 :: Collection where
  "store3 \<equiv> \<lparr>docs = [ev_meeting, ev_call_done, ev_call], next_oid = 3\<rparr>"

text \<open>Two rows that started within the same millisecond.\<close>

abbreviation ev_task :: Event where
  "ev_task \<equiv>
     \<lparr>ID = 0, Type = ''task'', State = Active, StartedAt = 30000000, FinishedAt = None\<rparr>"

abbreviation ev_sync :: Event where
  "ev_sync \<equiv>
     \<lparr>ID = 1, Type = ''sync'', State = Active, StartedAt = 30000000, FinishedAt = None\<rparr>"

abbreviation store_tied :: Collection where
  "store_tied \<equiv> \<lparr>docs = [ev_task, ev_sync], next_oid = 2\<rparr>"

text \<open>A row whose type fails the check of the handlers.\<close>

abbreviation ev_odd :: Event where
  "ev_odd \<equiv>
     \<lparr>ID = 2, Type = ''Meeting 1!'', State = Active, StartedAt = 20000000, FinishedAt = None\<rparr>"

abbreviation store_odd :: Collection where
  "store_odd \<equiv> \<lparr>docs = [ev_meeting, ev_call_done, ev_odd], next_oid = 3\<rparr>"

section \<open>The store operations, step by step\<close>

lemma update_first_None: "update_first P f es = None \<longleftrightarrow> \<not> list_ex P es"
  by (induction es) (auto split: option.splits)

lemma update_first_Some:
  "update_first P f es = Some (r, es') \<Longrightarrow>
   \<exists>xs e ys. es = xs @ e # ys \<and> es' = xs @ f e # ys \<and> \<not> list_ex P xs \<and> P e \<and> r = f e"
proof (induction es arbitrary: es')
  case Nil
  then show ?case by simp
next
  case (Cons a es)
  show ?case
  proof (cases "P a")
    case True
    with Cons.prems have "r = f a" "es' = f a # es" by auto
    with True show ?thesis by (intro exI[of _ "[]"] exI[of _ a] exI[of _ es]) simp
  next
    case False
    with Cons.prems obtain es2 where u: "update_first P f es = Some (r, es2)" and e: "es' = a # es2"
      by (auto split: option.splits)
    from Cons.IH[OF u] obtain xs e ys where
      "es = xs @ e # ys" "es2 = xs @ f e # ys" "\<not> list_ex P xs" "P e" "r = f e" by blast
    with False e show ?thesis
      by (intro exI[of _ "a # xs"] exI[of _ e] exI[of _ ys]) simp
  qed
qed

lemma update_first_NoneI: "\<not> list_ex P es \<Longrightarrow> update_first P f es = None"
  by (simp add: update_first_None)

lemma matches_active: "matches \<lparr>m_type = Some t, m_state = Some Active\<rparr> = is_active t"
  by (rule ext) (simp add: matches_def is_active_def)

lemma find_None_has_active: "find (is_active t) (docs col) = None \<longleftrightarrow> \<not> has_active t col"
  by (auto simp: find_None_iff has_active_def list_ex_iff)

lemma FindActive_ok:
  "EventRepository_FindActive None t col = (Inr (find (is_active t) (docs col)), col)"
  by (simp add: EventRepository_FindActive_def FindOne_def matches_active split: option.splits)

lemma FindActive_fault: "EventRepository_FindActive (Some m) t col = (Inl (StorageError m), col)"
  by (simp add: EventRepository_FindActive_def FindOne_def)

lemma Create_ok:
  "EventRepository_Create None now t col =
     (Inr \<lparr>ID = next_oid col, Type = t, State = Active, StartedAt = now, FinishedAt = None\<rparr>,
      col\<lparr>docs := docs col @ [\<lparr>ID = next_oid col, Type = t, State = Active,
                                 StartedAt = bson_DateTime now, FinishedAt = None\<rparr>],
          next_oid := Suc (next_oid col)\<rparr>)"
  by (simp add: EventRepository_Create_def InsertOne_def Marshal_def Let_def)

lemma Create_fault: "EventRepository_Create (Some m) now t col = (Inl (StorageError m), col)"
  by (simp add: EventRepository_Create_def InsertOne_def Let_def)

lemma Finish_fault: "EventRepository_Finish (Some m) now t col = (Inl (StorageError m), col)"
  by (simp add: EventRepository_Finish_def FindOneAndUpdate_def Let_def)

lemma Finish_none:
  "\<not> has_active t col \<Longrightarrow> EventRepository_Finish None now t col = (Inl ErrNoDocuments, col)"
  by (simp add: EventRepository_Finish_def FindOneAndUpdate_def Let_def matches_active
      update_first_NoneI has_active_def)

lemma Finish_some:
  assumes "has_active t col"
  shows "\<exists>xs e ys. docs col = xs @ e # ys \<and> is_active t e \<and> \<not> list_ex (is_active t) xs \<and>
           EventRepository_Finish None now t col =
             (Inr (e\<lparr>State := Finished, FinishedAt := Some (bson_DateTime now)\<rparr>),
              col\<lparr>docs := xs @ e\<lparr>State := Finished, FinishedAt := Some (bson_DateTime now)\<rparr> # ys\<rparr>)"
proof -
  let ?f = "apply_set \<lparr>set_state = Finished, set_finished_at = now\<rparr>"
  from assms have "update_first (is_active t) ?f (docs col) \<noteq> None"
    by (simp add: update_first_None has_active_def)
  then obtain r es' where u: "update_first (is_active t) ?f (docs col) = Some (r, es')"
    by (cases "update_first (is_active t) ?f (docs col)") auto
  from update_first_Some[OF u] obtain xs e ys where
    d: "docs col = xs @ e # ys" "es' = xs @ ?f e # ys" "\<not> list_ex (is_active t) xs"
       "is_active t e" "r = ?f e" by blast
  have "EventRepository_Finish None now t col = (Inr r, col\<lparr>docs := es'\<rparr>)"
    using u by (simp add: EventRepository_Finish_def FindOneAndUpdate_def Let_def matches_active)
  with d show ?thesis by (auto simp: apply_set_def)
qed

lemma Service_Finish_eq:
  "EventService_Finish fault now t col = EventRepository_Finish fault now t col"
  by (auto simp: EventService_Finish_def split: prod.splits sum.splits)


section \<open>FindActive\<close>

text \<open>
  Claim C8. When no row of type \<open>t\<close> is active, \<open>FindActive\<close> returns no row and no
  error; when one is, it returns an active row of type \<open>t\<close> of the store; the only
  errors it returns are failures of the storage call, handed on as they are; and it
  never changes the store.
\<close>

theorem FindActive_absence_is_no_error:
  "(\<not> has_active t col \<longrightarrow> EventRepository_FindActive None t col = (Inr None, col)) \<and>
   (has_active t col \<longrightarrow>
      (\<exists>e \<in> set (docs col). is_active t e \<and>
         EventRepository_FindActive None t col = (Inr (Some e), col))) \<and>
   (\<forall>err. fst (EventRepository_FindActive fault t col) = Inl err \<longrightarrow>
      (\<exists>m. fault = Some m \<and> err = StorageError m)) \<and>
   snd (EventRepository_FindActive fault t col) = col"
proof (intro conjI impI allI)
  assume "\<not> has_active t col"
  then show "EventRepository_FindActive None t col = (Inr None, col)"
    by (simp add: FindActive_ok find_None_has_active)
next
  assume "has_active t col"
  then obtain e where e: "find (is_active t) (docs col) = Some e"
    using find_None_has_active[of t col] by (cases "find (is_active t) (docs col)") auto
  then have "e \<in> set (docs col)" "is_active t e"
    by (auto simp: find_Some_iff)
  with e show "\<exists>e \<in> set (docs col). is_active t e \<and>
      EventRepository_FindActive None t col = (Inr (Some e), col)"
    by (auto simp: FindActive_ok)
next
  fix err
  assume "fst (EventRepository_FindActive fault t col) = Inl err"
  then show "\<exists>m. fault = Some m \<and> err = StorageError m"
    by (cases fault) (simp_all add: FindActive_ok FindActive_fault)
next
  show "snd (EventRepository_FindActive fault t col) = col"
    by (cases fault) (simp_all add: FindActive_ok FindActive_fault)
qed

theorem FindActive_absence_is_no_error_witness:
  "\<not> has_active ''call'' store2 \<and>
   EventRepository_FindActive None ''call'' store2 = (Inr None, store2) \<and>
   has_active ''meeting'' store2 \<and>
   EventRepository_FindActive None ''meeting'' store2 = (Inr (Some ev_meeting), store2) \<and>
   fst (EventRepository_FindActive (Some ''context canceled'') ''call'' store2) =
     Inl (StorageError ''context canceled'')"
  using FindActive_absence_is_no_error [of "''call''" store2 "Some ''context canceled''"]
    FindActive_absence_is_no_error [of "''meeting''" store2 None]
  by (simp add: has_active_def is_active_def EventRepository_FindActive_def FindOne_def)

section \<open>Finish without an active row\<close>

text \<open>
  Claim C3. When the storage call goes through, \<open>Finish\<close> of the service returns
  \<open>ErrNoDocuments\<close> exactly when the store has no active row of type \<open>t\<close>, which is
  the case in particular when every row of type \<open>t\<close> is finished or when there is
  none; whenever it returns \<open>ErrNoDocuments\<close> the store is the one it started from;
  and a failure of the storage call comes back unchanged, the store untouched.
\<close>

theorem Finish_NotFound_iff_no_active:
  "(fst (EventService_Finish None now t col) = Inl ErrNoDocuments \<longleftrightarrow> \<not> has_active t col) \<and>
   (fst (EventService_Finish fault now t col) = Inl ErrNoDocuments \<longrightarrow>
      fault = None \<and> snd (EventService_Finish fault now t col) = col) \<and>
   (list_all (\<lambda>e. Type e = t \<longrightarrow> State e = Finished) (docs col) \<longrightarrow>
      EventService_Finish None now t col = (Inl ErrNoDocuments, col)) \<and>
   EventService_Finish (Some m) now t col = (Inl (StorageError m), col)"
proof -
  have a: "fst (EventService_Finish None now t col) = Inl ErrNoDocuments \<longleftrightarrow> \<not> has_active t col"
  proof (cases "has_active t col")
    case True
    from Finish_some[OF True, of now] show ?thesis
      using True by (auto simp: Service_Finish_eq)
  next
    case False
    then show ?thesis by (simp add: Service_Finish_eq Finish_none)
  qed
  have b: "fst (EventService_Finish fault now t col) = Inl ErrNoDocuments \<longrightarrow>
      fault = None \<and> snd (EventService_Finish fault now t col) = col"
  proof (cases fault)
    case None
    show ?thesis
    proof (cases "has_active t col")
      case True
      with a None show ?thesis by simp
    next
      case False
      with None show ?thesis by (simp add: Service_Finish_eq Finish_none)
    qed
  next
    case (Some m)
    then show ?thesis by (simp add: Service_Finish_eq Finish_fault)
  qed
  have c: "list_all (\<lambda>e. Type e = t \<longrightarrow> State e = Finished) (docs col) \<longrightarrow>
      EventService_Finish None now t col = (Inl ErrNoDocuments, col)"
  proof
    assume "list_all (\<lambda>e. Type e = t \<longrightarrow> State e = Finished) (docs col)"
    then have "\<not> has_active t col"
      by (auto simp: has_active_def is_active_def list_all_iff list_ex_iff)
    then show "EventService_Finish None now t col = (Inl ErrNoDocuments, col)"
      by (simp add: Service_Finish_eq Finish_none)
  qed
  have d: "EventService_Finish (Some m) now t col = (Inl (StorageError m), col)"
    by (simp add: Service_Finish_eq Finish_fault)
  from a b c d show ?thesis by blast
qed

theorem Finish_NotFound_iff_no_active_witness:
  "fst (EventService_Finish None 20000000 ''call'' store2) = Inl ErrNoDocuments \<and>
   snd (EventService_Finish None 20000000 ''call'' store2) = store2 \<and>
   list_all (\<lambda>e. Type e = ''call'' \<longrightarrow> State e = Finished) (docs store2) \<and>
   list_all (\<lambda>e. Type e = ''task'' \<longrightarrow> State e = Finished) (docs store2) \<and>
   EventService_Finish None 20000000 ''task'' store2 = (Inl ErrNoDocuments, store2) \<and>
   fst (EventService_Finish None 20000000 ''meeting'' store2) \<noteq> Inl ErrNoDocuments"
  using Finish_NotFound_iff_no_active [of 20000000 "''call''" store2 None]
    Finish_NotFound_iff_no_active [of 20000000 "''task''" store2 None]
    Finish_NotFound_iff_no_active [of 20000000 "''meeting''" store2 None]
  by (simp add: has_active_def is_active_def)

section \<open>Start\<close>

lemma bson_DateTime_bounds: "bson_DateTime t \<le> t \<and> t < bson_DateTime t + 1000000"
proof -
  have "t = t div 1000000 * 1000000 + t mod 1000000" by simp
  moreover have "0 \<le> t mod 1000000" "t mod 1000000 < 1000000" by simp_all
  ultimately show ?thesis unfolding bson_DateTime_def by linarith
qed

lemma bson_DateTime_idem: "bson_DateTime (bson_DateTime t) = bson_DateTime t"
  by (simp add: bson_DateTime_def)


lemma Service_Start_fault: "EventService_Start (Some m) f2 now t col = (Inl (StorageError m), col)"
  by (simp add: EventService_Start_def FindActive_fault)

lemma Service_Start_found:
  "find (is_active t) (docs col) = Some e \<Longrightarrow> EventService_Start None f2 now t col = (Inr e, col)"
  by (simp add: EventService_Start_def FindActive_ok)

lemma Service_Start_create:
  "find (is_active t) (docs col) = None \<Longrightarrow>
   EventService_Start None f2 now t col = EventRepository_Create f2 now t col"
  by (simp add: EventService_Start_def FindActive_ok)

lemma find_append_new:
  "find P xs = None \<Longrightarrow> P x \<Longrightarrow> find P (xs @ [x]) = Some x"
  by (induction xs) (auto split: if_splits)

text \<open>
  Claim C2, as amended. When a row of type \<open>t\<close> is active, \<open>Start\<close> returns an active
  row of type \<open>t\<close> that is in the store and leaves the store as it is: no field
  written, no row inserted, and the insertion is not reached. When none is active,
  \<open>Start\<close> appends one row, of type \<open>t\<close>, active, with no finish time and with the
  identifier the store assigns, which no stored row has. The start time of the stored
  row is the clock reading of the call cut to the millisecond. The row returned has
  the same identifier, type and state, and the clock reading itself as its start
  time: it is the stored row when the reading is a whole number of milliseconds, and
  less than a millisecond later otherwise. The next \<open>Start\<close> of the type returns the
  stored row.
\<close>

theorem Start_contract:
  "(has_active t col \<longrightarrow>
      (\<exists>e \<in> set (docs col). is_active t e \<and>
         EventService_Start None fault_insert now t col = (Inr e, col))) \<and>
   (\<not> has_active t col \<longrightarrow>
      (\<exists>e col'. EventService_Start None None now t col = (Inr e, col') \<and>
         e = \<lparr>ID = next_oid col, Type = t, State = Active, StartedAt = now, FinishedAt = None\<rparr> \<and>
         docs col' = docs col @ [e\<lparr>StartedAt := bson_DateTime now\<rparr>] \<and>
         next_oid col' = Suc (next_oid col) \<and>
         bson_DateTime now \<le> now \<and> now < bson_DateTime now + 1000000 \<and>
         (bson_DateTime now = now \<longrightarrow> docs col' = docs col @ [e]) \<and>
         EventService_Start None fault_insert now' t col' =
           (Inr (e\<lparr>StartedAt := bson_DateTime now\<rparr>), col') \<and>
         (store_ok col \<longrightarrow> ID e \<notin> set (map ID (docs col)))))"
proof (intro conjI impI)
  assume "has_active t col"
  then obtain e where e: "find (is_active t) (docs col) = Some e"
    using find_None_has_active[of t col] by (cases "find (is_active t) (docs col)") auto
  then have "e \<in> set (docs col)" "is_active t e"
    by (auto simp: find_Some_iff)
  with Service_Start_found[OF e] show "\<exists>e \<in> set (docs col). is_active t e \<and>
      EventService_Start None fault_insert now t col = (Inr e, col)"
    by auto
next
  assume "\<not> has_active t col"
  then have n: "find (is_active t) (docs col) = None"
    by (simp add: find_None_has_active)
  let ?e = "\<lparr>ID = next_oid col, Type = t, State = Active, StartedAt = now, FinishedAt = None\<rparr>"
  let ?r = "?e\<lparr>StartedAt := bson_DateTime now\<rparr>"
  let ?col = "col\<lparr>docs := docs col @ [?r], next_oid := Suc (next_oid col)\<rparr>"
  have s: "EventService_Start None None now t col = (Inr ?e, ?col)"
    by (simp add: Service_Start_create[OF n] Create_ok)
  have "find (is_active t) (docs ?col) = Some ?r"
    using n by (simp add: find_append_new is_active_def)
  then have again: "EventService_Start None fault_insert now' t ?col = (Inr ?r, ?col)"
    by (rule Service_Start_found)
  have fresh: "store_ok col \<longrightarrow> ID ?e \<notin> set (map ID (docs col))"
    by (auto simp: store_ok_def list_all_iff)
  have al: "bson_DateTime now = now \<longrightarrow> docs ?col = docs col @ [?e]"
    by simp
  show "\<exists>e col'. EventService_Start None None now t col = (Inr e, col') \<and>
         e = \<lparr>ID = next_oid col, Type = t, State = Active, StartedAt = now, FinishedAt = None\<rparr> \<and>
         docs col' = docs col @ [e\<lparr>StartedAt := bson_DateTime now\<rparr>] \<and>
         next_oid col' = Suc (next_oid col) \<and>
         bson_DateTime now \<le> now \<and> now < bson_DateTime now + 1000000 \<and>
         (bson_DateTime now = now \<longrightarrow> docs col' = docs col @ [e]) \<and>
         EventService_Start None fault_insert now' t col' =
           (Inr (e\<lparr>StartedAt := bson_DateTime now\<rparr>), col') \<and>
         (store_ok col \<longrightarrow> ID e \<notin> set (map ID (docs col)))"
    apply (rule exI[of _ ?e], rule exI[of _ ?col])
    using s again fresh al bson_DateTime_bounds[of now] by simp
qed

theorem Start_contract_witness:
  "has_active ''meeting'' store2 \<and>
   EventService_Start None None 20000001 ''meeting'' store2 = (Inr ev_meeting, store2) \<and>
   \<not> has_active ''call'' store2 \<and> store_ok store2 \<and>
   EventService_Start None None 20000001 ''call'' store2 =
     (Inr \<lparr>ID = 2, Type = ''call'', State = Active, StartedAt = 20000001, FinishedAt = None\<rparr>,
      \<lparr>docs = [ev_meeting, ev_call_done,
               \<lparr>ID = 2, Type = ''call'', State = Active, StartedAt = 20000000, FinishedAt = None\<rparr>],
       next_oid = 3\<rparr>)"
  using Start_contract [of "''meeting''" store2 None 20000001 20000001]
    Start_contract [of "''call''" store2 None 20000001 20000001]
  by (simp add: has_active_def is_active_def store_ok_def EventService_Start_def
      EventRepository_FindActive_def FindOne_def matches_def EventRepository_Create_def
      InsertOne_def Marshal_def bson_DateTime_def NilObjectID_def)

text \<open>
  The claim as it is worded has \<open>Start\<close> return the row it inserted. With the clock
  one nanosecond past twenty milliseconds, the row returned starts at that reading
  and the row in the store at twenty milliseconds.
\<close>

theorem Start_returns_unstored_time_counterexample:
  "EventService_Start None None 20000001 ''call'' store2 =
     (Inr \<lparr>ID = 2, Type = ''call'', State = Active, StartedAt = 20000001, FinishedAt = None\<rparr>,
      \<lparr>docs = [ev_meeting, ev_call_done,
               \<lparr>ID = 2, Type = ''call'', State = Active, StartedAt = 20000000, FinishedAt = None\<rparr>],
       next_oid = 3\<rparr>) \<and>
   \<lparr>ID = 2, Type = ''call'', State = Active, StartedAt = 20000001, FinishedAt = None\<rparr> \<notin>
     set [ev_meeting, ev_call_done,
          \<lparr>ID = 2, Type = ''call'', State = Active, StartedAt = 20000000, FinishedAt = None\<rparr>]"
  by (simp add: EventService_Start_def EventRepository_FindActive_def FindOne_def matches_def
      EventRepository_Create_def InsertOne_def Marshal_def bson_DateTime_def NilObjectID_def)

section \<open>Finish with an active row\<close>





section \<open>The invariants of the store\<close>

lemma Service_Start_cases:
  "EventService_Start f1 f2 now t col =
     (case f1 of
        Some m \<Rightarrow> (Inl (StorageError m), col)
      | None \<Rightarrow>
          (case find (is_active t) (docs col) of
             Some e \<Rightarrow> (Inr e, col)
           | None \<Rightarrow>
               (case f2 of
                  Some m \<Rightarrow> (Inl (StorageError m), col)
                | None \<Rightarrow>
                    (Inr \<lparr>ID = next_oid col, Type = t, State = Active, StartedAt = now,
                          FinishedAt = None\<rparr>,
                     col\<lparr>docs := docs col @ [\<lparr>ID = next_oid col, Type = t, State = Active,
                                                StartedAt = bson_DateTime now,
                                                FinishedAt = None\<rparr>],
                         next_oid := Suc (next_oid col)\<rparr>))))"
  by (simp add: Service_Start_fault Service_Start_found Service_Start_create Create_ok
      Create_fault split: option.splits)

lemma Service_Finish_cases:
  "EventService_Finish f now t col = (Inl err, col) \<or>
   (\<exists>xs e ys. docs col = xs @ e # ys \<and> is_active t e \<and> \<not> list_ex (is_active t) xs \<and>
      EventService_Finish f now t col =
        (Inr (e\<lparr>State := Finished, FinishedAt := Some (bson_DateTime now)\<rparr>),
         col\<lparr>docs := xs @ e\<lparr>State := Finished, FinishedAt := Some (bson_DateTime now)\<rparr> # ys\<rparr>)) \<or>
   (\<exists>err'. EventService_Finish f now t col = (Inl err', col))"
proof (cases f)
  case (Some m)
  then show ?thesis by (simp add: Service_Finish_eq Finish_fault)
next
  case None
  show ?thesis
  proof (cases "has_active t col")
    case True
    from Finish_some[OF True, of now] None show ?thesis
      by (simp add: Service_Finish_eq)
  next
    case False
    with None show ?thesis by (simp add: Service_Finish_eq Finish_none)
  qed
qed

lemma Service_List_store: "snd (EventService_List tie f1 f2 offset limit flt col) = col"
  by (simp add: EventService_List_def EventRepository_List_def Find_def cursor_All_def Let_def
      split: option.splits)

lemma count_active_types:
  "count (mset (map Type (filter (\<lambda>e. State e = Active) es))) t = length (filter (is_active t) es)"
  by (induction es) (auto simp: is_active_def)

lemma I1_iff: "I1 col \<longleftrightarrow> (\<forall>t. length (filter (is_active t) (docs col)) \<le> 1)"
proof -
  let ?ts = "active_types col"
  have c: "count (mset ?ts) t = length (filter (is_active t) (docs col))" for t
    unfolding active_types_def by (rule count_active_types)
  have "distinct ?ts \<longleftrightarrow> (\<forall>t. count (mset ?ts) t \<le> 1)"
  proof
    assume "distinct ?ts"
    then show "\<forall>t. count (mset ?ts) t \<le> 1"
      by (simp add: distinct_count_atmost_1)
  next
    assume a: "\<forall>t. count (mset ?ts) t \<le> 1"
    have "count (mset ?ts) t = (if t \<in> set ?ts then 1 else 0)" for t
    proof (cases "t \<in> set ?ts")
      case True
      then have "count (mset ?ts) t \<noteq> 0" by (simp add: count_eq_zero_iff)
      with a[rule_format, of t] have "count (mset ?ts) t = 1" by arith
      with True show ?thesis by (simp only: if_True)
    next
      case False
      then show ?thesis by (simp add: count_eq_zero_iff)
    qed
    then show "distinct ?ts" by (simp add: distinct_count_atmost_1)
  qed
  then show ?thesis by (simp add: I1_def c)
qed

lemma active_types_append:
  "active_types (col\<lparr>docs := xs @ ys\<rparr>) =
     active_types (col\<lparr>docs := xs\<rparr>) @ active_types (col\<lparr>docs := ys\<rparr>)"
  by (simp add: active_types_def)

lemma has_active_types: "has_active t col \<longleftrightarrow> t \<in> set (active_types col)"
  by (auto simp: has_active_def active_types_def is_active_def list_ex_iff)

lemma I1_Start: "I1 col \<Longrightarrow> I1 (snd (EventService_Start f1 f2 now t col))"
proof -
  assume i: "I1 col"
  show ?thesis
  proof (cases "find (is_active t) (docs col)")
    case (Some e)
    with i show ?thesis by (simp add: Service_Start_cases split: option.splits)
  next
    case None
    then have "t \<notin> set (active_types col)"
      by (simp add: find_None_has_active has_active_types)
    with i None show ?thesis
      by (simp add: Service_Start_cases I1_def active_types_def split: option.splits)
  qed
qed

lemma I1_Finish: "I1 col \<Longrightarrow> I1 (snd (EventService_Finish f now t col))"
proof -
  assume i: "I1 col"
  from Service_Finish_cases[of f now t col ErrNoDocuments]
  consider (unchanged) "snd (EventService_Finish f now t col) = col"
    | (updated) xs e ys where "docs col = xs @ e # ys"
        "snd (EventService_Finish f now t col) =
           col\<lparr>docs := xs @ e\<lparr>State := Finished, FinishedAt := Some (bson_DateTime now)\<rparr> # ys\<rparr>"
    by force
  then show ?thesis
  proof cases
    case unchanged
    with i show ?thesis by simp
  next
    case updated
    with i show ?thesis
      by (auto simp: I1_def active_types_def split: if_splits)
  qed
qed

text \<open>
  Claim C1. Run one after the other, the operations keep invariant I1: from a store in
  which no type has two active rows, \<open>Start\<close>, \<open>Finish\<close> and \<open>List\<close> of the service
  lead to a store in which no type has two active rows, for every type, clock
  reading, offset, limit and filter, whatever order the store gives rows with equal
  start times, and whether the storage calls go through or fail. (\<open>I1_iff\<close> reads \<open>I1\<close> as a count of active rows for every type.)
\<close>

theorem I1_preserved:
  assumes "I1 col"
  shows "I1 (snd (EventService_Start f1 f2 now t col)) \<and>
         I1 (snd (EventService_Finish f now' t' col)) \<and>
         I1 (snd (EventService_List tie f3 f4 offset limit flt col))"
  using assms by (simp add: I1_Start I1_Finish Service_List_store)

theorem I1_preserved_witness:
  "I1 store2 \<and>
   I1 (snd (EventService_Start None None 20000001 ''call'' store2)) \<and>
   I1 (snd (EventService_Finish None 20000001 ''meeting'' store2)) \<and>
   I1 (snd (EventService_List ID None None 0 0 [] store2))"
proof -
  have h: "I1 store2"
    by (simp add: I1_def active_types_def)
  show ?thesis
    using h I1_preserved [OF h, where ?f1.0 = None and ?f2.0 = None and now = 20000001
        and t = "''call''" and f = None and now' = 20000001 and t' = "''meeting''"
        and tie = ID and ?f3.0 = None and ?f4.0 = None and offset = 0 and limit = 0
        and flt = "[]"]
    by simp
qed

section \<open>Types do not interfere\<close>

lemma store_ok_Start: "store_ok col \<Longrightarrow> store_ok (snd (EventService_Start f1 f2 now t col))"
  by (auto simp: Service_Start_cases store_ok_def list_all_iff split: option.splits)

lemma store_ok_Finish: "store_ok col \<Longrightarrow> store_ok (snd (EventService_Finish f now t col))"
proof -
  assume ok: "store_ok col"
  from Service_Finish_cases[of f now t col ErrNoDocuments]
  consider (unchanged) "snd (EventService_Finish f now t col) = col"
    | (updated) xs e ys where "docs col = xs @ e # ys"
        "snd (EventService_Finish f now t col) =
           col\<lparr>docs := xs @ e\<lparr>State := Finished, FinishedAt := Some (bson_DateTime now)\<rparr> # ys\<rparr>"
    by force
  then show ?thesis
  proof cases
    case unchanged
    with ok show ?thesis by simp
  next
    case updated
    with ok show ?thesis by (auto simp: store_ok_def)
  qed
qed

lemma Service_Start_result:
  assumes "EventService_Start f1 f2 now t col = (Inr e, c1)"
  shows "(\<exists>r \<in> set (docs c1). ID r = ID e \<and> Type r = t) \<and> Type e = t \<and> State e = Active \<and>
         set (docs col) \<subseteq> set (docs c1)"
proof (cases "find (is_active t) (docs col)")
  case None
  with assms show ?thesis
    by (auto simp: Service_Start_cases split: option.splits)
next
  case (Some a)
  then have "a \<in> set (docs col)" "is_active t a" by (auto simp: find_Some_iff)
  with assms Some show ?thesis
    by (auto simp: Service_Start_cases is_active_def split: option.splits)
qed

lemma Service_Finish_frame:
  "length (docs (snd (EventService_Finish f now t col))) = length (docs col) \<and>
   next_oid (snd (EventService_Finish f now t col)) = next_oid col \<and>
   (\<forall>j < length (docs col). \<not> is_active t (docs col ! j) \<longrightarrow>
      docs (snd (EventService_Finish f now t col)) ! j = docs col ! j) \<and>
   length (filter (\<lambda>(a, b). a \<noteq> b) (zip (docs col) (docs (snd (EventService_Finish f now t col))))) \<le> 1"
proof -
  from Service_Finish_cases[of f now t col ErrNoDocuments]
  consider (unchanged) "snd (EventService_Finish f now t col) = col"
    | (updated) xs e ys where "docs col = xs @ e # ys" "is_active t e"
        "snd (EventService_Finish f now t col) =
           col\<lparr>docs := xs @ e\<lparr>State := Finished, FinishedAt := Some (bson_DateTime now)\<rparr> # ys\<rparr>"
    by force
  then show ?thesis
  proof cases
    case unchanged
    have "filter (\<lambda>(a, b). a \<noteq> b) (zip xs xs) = []" for xs :: "Event list"
      by (induction xs) auto
    with unchanged show ?thesis by simp
  next
    case updated
    have z: "filter (\<lambda>(a, b). a \<noteq> b) (zip xs xs) = []" for xs :: "Event list"
      by (induction xs) auto
    have "\<forall>j < length (docs col). \<not> is_active t (docs col ! j) \<longrightarrow>
      (xs @ e\<lparr>State := Finished, FinishedAt := Some (bson_DateTime now)\<rparr> # ys) ! j = docs col ! j"
      using updated(1,2) by (auto simp: nth_append nth_Cons split: nat.splits)
    with updated z show ?thesis by simp
  qed
qed

text \<open>
  Claim C9. In a store whose identifiers are pairwise different and below the next
  one, \<open>Start\<close> of a type followed by \<open>Start\<close> of another type returns two rows with
  different identifiers, one of each type, each the identifier of a row of its type
  in the store. \<open>Finish\<close> of a type keeps the number of rows and changes at most one of
  them: every row that is not an active row of that type, so every row of another
  type and every finished row, is the same row after the call, field by field.
\<close>

theorem types_are_independent:
  assumes "store_ok col" and "t1 \<noteq> t2"
  shows "(\<forall>e1 c1 e2 c2.
            EventService_Start f1 f2 now1 t1 col = (Inr e1, c1) \<and>
            EventService_Start f3 f4 now2 t2 c1 = (Inr e2, c2) \<longrightarrow>
            ID e1 \<noteq> ID e2 \<and> Type e1 = t1 \<and> Type e2 = t2 \<and>
            (\<exists>r \<in> set (docs c2). ID r = ID e1 \<and> Type r = t1) \<and>
            (\<exists>r \<in> set (docs c2). ID r = ID e2 \<and> Type r = t2)) \<and>
         length (docs (snd (EventService_Finish f now t1 col))) = length (docs col) \<and>
         (\<forall>j < length (docs col).
            Type (docs col ! j) \<noteq> t1 \<or> State (docs col ! j) = Finished \<longrightarrow>
            docs (snd (EventService_Finish f now t1 col)) ! j = docs col ! j) \<and>
         length (filter (\<lambda>(a, b). a \<noteq> b)
                   (zip (docs col) (docs (snd (EventService_Finish f now t1 col))))) \<le> 1"
proof (intro conjI allI impI)
  fix e1 c1 e2 c2
  assume s: "EventService_Start f1 f2 now1 t1 col = (Inr e1, c1) \<and>
             EventService_Start f3 f4 now2 t2 c1 = (Inr e2, c2)"
  from s Service_Start_result[of f1 f2 now1 t1 col e1 c1]
  obtain r1 where r1: "r1 \<in> set (docs c1)" "ID r1 = ID e1" "Type r1 = t1" "Type e1 = t1"
    by auto
  from s Service_Start_result[of f3 f4 now2 t2 c1 e2 c2]
  obtain r2 where r2: "r2 \<in> set (docs c2)" "ID r2 = ID e2" "Type r2 = t2" "Type e2 = t2"
      and sub: "set (docs c1) \<subseteq> set (docs c2)"
    by auto
  from s have c1: "c1 = snd (EventService_Start f1 f2 now1 t1 col)" by simp
  from s have c2: "c2 = snd (EventService_Start f3 f4 now2 t2 c1)" by simp
  have "store_ok c2"
    using assms(1) c1 c2 store_ok_Start by simp
  then have inj: "inj_on ID (set (docs c2))"
    by (simp add: store_ok_def distinct_map)
  have in2: "r1 \<in> set (docs c2)" using r1 sub by auto
  moreover have "r1 \<noteq> r2" using r1 r2 assms(2) by auto
  ultimately have "ID r1 \<noteq> ID r2" using inj r2(1) by (auto dest: inj_onD)
  then show "ID e1 \<noteq> ID e2" using r1 r2 by simp
  show "Type e1 = t1" by (rule r1)
  show "Type e2 = t2" by (rule r2)
  show "\<exists>r \<in> set (docs c2). ID r = ID e1 \<and> Type r = t1" using in2 r1 by auto
  show "\<exists>r \<in> set (docs c2). ID r = ID e2 \<and> Type r = t2" using r2 by auto
next
  show "length (docs (snd (EventService_Finish f now t1 col))) = length (docs col)"
    using Service_Finish_frame[of f now t1 col] by simp
next
  fix j
  assume "j < length (docs col)" "Type (docs col ! j) \<noteq> t1 \<or> State (docs col ! j) = Finished"
  then show "docs (snd (EventService_Finish f now t1 col)) ! j = docs col ! j"
    using Service_Finish_frame[of f now t1 col] by (auto simp: is_active_def)
next
  show "length (filter (\<lambda>(a, b). a \<noteq> b)
                   (zip (docs col) (docs (snd (EventService_Finish f now t1 col))))) \<le> 1"
    using Service_Finish_frame[of f now t1 col] by simp
qed

theorem types_are_independent_witness:
  "store_ok store3 \<and> ''meeting'' \<noteq> ''task'' \<and>
   EventService_Start None None 20000001 ''meeting'' store3 = (Inr ev_meeting, store3) \<and>
   fst (EventService_Start None None 21000001 ''task'' store3) =
     Inr \<lparr>ID = 3, Type = ''task'', State = Active, StartedAt = 21000001, FinishedAt = None\<rparr> \<and>
   docs (snd (EventService_Finish None 22000001 ''meeting'' store3)) ! 1 = ev_call_done \<and>
   docs (snd (EventService_Finish None 22000001 ''meeting'' store3)) ! 2 = ev_call"
proof -
  have h: "store_ok store3" by (simp add: store_ok_def)
  have n: "''meeting'' \<noteq> ''task''" by simp
  show ?thesis
    using h n types_are_independent [OF h n, where ?f1.0 = None and ?f2.0 = None
        and ?now1.0 = 20000001 and ?f3.0 = None and ?f4.0 = None and ?now2.0 = 21000001
        and f = None and now = 22000001]
    by (simp add: Service_Start_cases is_active_def)
qed

section \<open>List\<close>

lemma matches_no_filter: "matches \<lparr>m_type = None, m_state = None\<rparr> = (\<lambda>e. True)"
  by (rule ext) (simp add: matches_def)

lemma matches_type_filter: "matches \<lparr>m_type = Some f, m_state = None\<rparr> = (\<lambda>e. Type e = f)"
  by (rule ext) (simp add: matches_def)

lemma Service_List_ok:
  "EventService_List tie None None offset limit f col =
     (Inr (page (nat offset) (nat limit)
             (sort_key (\<lambda>e. - StartedAt e) (sort_key tie (matching f (docs col))))), col)"
  by (simp add: EventService_List_def EventRepository_List_def Find_def cursor_All_def Let_def
      page_def matching_def apply_sort_def apply_skip_def apply_limit_def matches_no_filter
      matches_type_filter)

lemma Service_List_fault:
  "EventService_List tie (Some m) f2 offset limit f col = (Inl (StorageError m), col)"
  "EventService_List tie None (Some m) offset limit f col = (Inl (StorageError m), col)"
  by (simp_all add: EventService_List_def EventRepository_List_def Find_def cursor_All_def Let_def)

lemma sort_key_unique:
  assumes "distinct (map k xs)" and "mset ys = mset xs"
  shows "sort_key k ys = sort_key k xs"
proof -
  let ?a = "sort_key k ys" and ?b = "sort_key k xs"
  have m: "mset ?a = mset ?b" using assms(2) by simp
  then have s: "set ?a = set ?b" by (rule mset_eq_setD)
  have "mset (map k ?a) = mset (map k xs)" using assms(2) by simp
  then have da: "distinct (map k ?a)" using assms(1) by (metis mset_eq_imp_distinct_iff)
  have "mset (map k ?b) = mset (map k xs)" by simp
  then have db: "distinct (map k ?b)" using assms(1) by (metis mset_eq_imp_distinct_iff)
  have "set (map k ?a) = set (map k ?b)" using s by simp
  then have e: "map k ?a = map k ?b"
    using da db by (intro sorted_distinct_set_unique) simp_all
  have "inj_on k (set xs)" using assms(1) by (simp add: distinct_map)
  moreover have "set ys = set xs" using assms(2) by (rule mset_eq_setD)
  ultimately have "inj_on k (set ?a \<union> set ?b)" by simp
  with e show ?thesis by (simp add: inj_on_map_eq_map)
qed

lemma distinct_started_matching:
  "distinct (map StartedAt rows) \<Longrightarrow> distinct (map (\<lambda>e. - StartedAt e) (matching f rows))"
proof -
  assume d: "distinct (map StartedAt rows)"
  then have "distinct (map StartedAt (matching f rows))"
    by (simp add: matching_def distinct_map_filter)
  then have "distinct (map uminus (map StartedAt (matching f rows)))"
    by (simp add: distinct_map inj_on_def del: map_map)
  then show ?thesis by (simp add: comp_def)
qed

lemma Service_List_distinct:
  assumes "distinct (map StartedAt (docs col))"
  shows "EventService_List tie None None offset limit f col =
           (Inr (list_spec (nat offset) (nat limit) f (docs col)), col)"
proof -
  have "sort_key (\<lambda>e. - StartedAt e) (sort_key tie (matching f (docs col))) =
        sort_key (\<lambda>e. - StartedAt e) (matching f (docs col))"
    by (rule sort_key_unique) (simp_all add: distinct_started_matching[OF assms])
  then show ?thesis by (simp add: Service_List_ok list_spec_def)
qed

lemma started_desc_sort: "started_desc (sort_key (\<lambda>e. - StartedAt e) es)"
proof -
  have "sorted (map (\<lambda>e. - StartedAt e) (sort_key (\<lambda>e. - StartedAt e) es))"
    by (rule sorted_sort_key)
  then show ?thesis by (simp add: started_desc_def sorted_map)
qed

lemma started_desc_page: "started_desc es \<Longrightarrow> started_desc (page k m es)"
  by (simp add: page_def started_desc_def sorted_wrt_drop sorted_wrt_take)

lemma list_spec_page: "list_spec k m f rows = page k m (list_spec 0 0 f rows)"
  by (simp add: list_spec_def page_def)

lemma list_spec_filter:
  "f \<noteq> [] \<Longrightarrow> list_spec 0 0 f rows = filter (\<lambda>e. Type e = f) (list_spec 0 0 [] rows)"
  by (simp add: list_spec_def page_def matching_def filter_sort)

lemma length_page:
  "length (page k m es) = (if 0 < m then min (length es - k) m else length es - k)"
  by (simp add: page_def)


text \<open>
  Claim C5, as amended. When no two stored rows have the same start time, \<open>List\<close>
  returns the stored rows, restricted to the rows of type \<open>f\<close> when \<open>f\<close> is not empty,
  ordered by start time descending, without the first \<open>offset\<close> rows, and cut to the
  first \<open>limit\<close> rows when \<open>limit\<close> is positive; a limit of \<open>0\<close> does not cut. Each page
  then is a slice of the full list, and the list for a filter is the unfiltered list
  with the other types left out, in the same order. Rows with equal start times come
  in an order the store chooses for the query: in every case \<open>List\<close> returns a page of
  some arrangement of the matching rows in descending order of start time. With \<open>N\<close>
  stored rows and no filter, skipping \<open>k\<close> leaves \<open>N - k\<close> rows, none when \<open>k\<close> exceeds
  \<open>N\<close>; a positive limit \<open>m\<close> gives \<open>min N m\<close> rows; a limit of \<open>0\<close> gives all \<open>N\<close>.
\<close>

theorem List_contract:
  "(distinct (map StartedAt (docs col)) \<longrightarrow>
      EventService_List tie None None offset limit f col =
        (Inr (list_spec (nat offset) (nat limit) f (docs col)), col) \<and>
      list_spec (nat offset) (nat limit) f (docs col) =
        page (nat offset) (nat limit) (list_spec 0 0 f (docs col)) \<and>
      (f \<noteq> [] \<longrightarrow>
         list_spec 0 0 f (docs col) = filter (\<lambda>e. Type e = f) (list_spec 0 0 [] (docs col)))) \<and>
   (\<exists>full. EventService_List tie None None offset limit f col =
              (Inr (page (nat offset) (nat limit) full), col) \<and>
           started_desc full \<and> mset full = mset (matching f (docs col))) \<and>
   (\<exists>es. EventService_List tie None None offset 0 [] col = (Inr es, col) \<and>
          length es = length (docs col) - nat offset) \<and>
   (0 < limit \<longrightarrow>
      (\<exists>es. EventService_List tie None None 0 limit [] col = (Inr es, col) \<and>
             length es = min (length (docs col)) (nat limit))) \<and>
   (\<exists>es. EventService_List tie None None 0 0 [] col = (Inr es, col) \<and>
          length es = length (docs col))"
proof (intro conjI impI)
  assume d: "distinct (map StartedAt (docs col))"
  show "EventService_List tie None None offset limit f col =
        (Inr (list_spec (nat offset) (nat limit) f (docs col)), col)"
    using d by (rule Service_List_distinct)
  show "list_spec (nat offset) (nat limit) f (docs col) =
        page (nat offset) (nat limit) (list_spec 0 0 f (docs col))"
    by (rule list_spec_page)
  show "list_spec 0 0 f (docs col) = filter (\<lambda>e. Type e = f) (list_spec 0 0 [] (docs col))"
    if "f \<noteq> []" using that by (rule list_spec_filter)
next
  let ?full = "sort_key (\<lambda>e. - StartedAt e) (sort_key tie (matching f (docs col)))"
  have "started_desc ?full" by (rule started_desc_sort)
  moreover have "mset ?full = mset (matching f (docs col))" by simp
  ultimately show "\<exists>full. EventService_List tie None None offset limit f col =
              (Inr (page (nat offset) (nat limit) full), col) \<and>
           started_desc full \<and> mset full = mset (matching f (docs col))"
    using Service_List_ok by blast
next
  show "\<exists>es. EventService_List tie None None offset 0 [] col = (Inr es, col) \<and>
          length es = length (docs col) - nat offset"
    by (simp add: Service_List_ok length_page matching_def)
next
  assume "0 < limit"
  then show "\<exists>es. EventService_List tie None None 0 limit [] col = (Inr es, col) \<and>
             length es = min (length (docs col)) (nat limit)"
    by (simp add: Service_List_ok length_page matching_def)
next
  show "\<exists>es. EventService_List tie None None 0 0 [] col = (Inr es, col) \<and>
          length es = length (docs col)"
    by (simp add: Service_List_ok length_page matching_def)
qed

theorem List_contract_witness:
  "distinct (map StartedAt (docs store3)) \<and> ''call'' \<noteq> [] \<and> (0::int) < 2 \<and>
   EventService_List ID None None 1 2 [] store3 = (Inr [ev_call_done, ev_meeting], store3) \<and>
   EventService_List ID None None 0 0 ''call'' store3 = (Inr [ev_call, ev_call_done], store3) \<and>
   list_spec 0 0 [] (docs store3) = [ev_call, ev_call_done, ev_meeting] \<and>
   fst (EventService_List ID None None 0 2 [] store3) = Inr [ev_call, ev_call_done]"
  using List_contract [of store3 ID 1 2 "[]"] List_contract [of store3 ID 0 0 "''call''"]
    List_contract [of store3 ID 0 2 "[]"]
  by (simp add: list_spec_def page_def matching_def)

text \<open>
  The claim as it is worded gives \<open>List 0 m\<close> without filter \<open>min N m\<close> rows for every
  \<open>m\<close> from \<open>0\<close> on; at \<open>m = 0\<close> that is no rows, and the code returns all of them. It
  also takes the rows ordered by start time to be one sequence; for two rows that
  started within the same millisecond either order is descending, the store may
  return the one for one query and the other for the next, and then a page of one
  row need not be the head of the full list.
\<close>

theorem List_contract_counterexample:
  "EventService_List ID None None 0 0 [] store2 = (Inr [ev_call_done, ev_meeting], store2) \<and>
   length [ev_call_done, ev_meeting] \<noteq> min (length (docs store2)) 0 \<and>
   EventService_List (\<lambda>e. ID e) None None 0 0 [] store_tied = (Inr [ev_task, ev_sync], store_tied) \<and>
   EventService_List (\<lambda>e. 1 - ID e) None None 0 0 [] store_tied =
     (Inr [ev_sync, ev_task], store_tied) \<and>
   EventService_List (\<lambda>e. 1 - ID e) None None 0 1 [] store_tied = (Inr [ev_sync], store_tied) \<and>
   [ev_sync] \<noteq> take 1 [ev_task, ev_sync]"
  by (simp add: EventService_List_def EventRepository_List_def Find_def cursor_All_def
      apply_sort_def apply_skip_def apply_limit_def matches_def)

section \<open>Validation of the type\<close>

lemma lower_range:
  "in_range (CHR ''a'', CHR ''z'') c \<longleftrightarrow> c \<in> set ''abcdefghijklmnopqrstuvwxyz''"
proof
  assume "in_range (CHR ''a'', CHR ''z'') c"
  then have b: "97 \<le> (of_char c :: nat)" "(of_char c :: nat) \<le> 122"
    by (simp_all add: in_range_def)
  have e: "c = d \<longleftrightarrow> (of_char c :: nat) = of_char d" for d
    by simp
  have "c = CHR ''a'' \<or> c = CHR ''b'' \<or> c = CHR ''c'' \<or> c = CHR ''d'' \<or> c = CHR ''e'' \<or>
      c = CHR ''f'' \<or> c = CHR ''g'' \<or> c = CHR ''h'' \<or> c = CHR ''i'' \<or> c = CHR ''j'' \<or>
      c = CHR ''k'' \<or> c = CHR ''l'' \<or> c = CHR ''m'' \<or> c = CHR ''n'' \<or> c = CHR ''o'' \<or>
      c = CHR ''p'' \<or> c = CHR ''q'' \<or> c = CHR ''r'' \<or> c = CHR ''s'' \<or> c = CHR ''t'' \<or>
      c = CHR ''u'' \<or> c = CHR ''v'' \<or> c = CHR ''w'' \<or> c = CHR ''x'' \<or> c = CHR ''y'' \<or>
      c = CHR ''z''"
    unfolding e using b by (simp del: of_char_eq_iff) arith
  then show "c \<in> set ''abcdefghijklmnopqrstuvwxyz''"
    by auto
next
  assume "c \<in> set ''abcdefghijklmnopqrstuvwxyz''"
  then show "in_range (CHR ''a'', CHR ''z'') c"
    by (auto simp: in_range_def)
qed

lemma digit_range:
  "in_range (CHR ''0'', CHR ''9'') c \<longleftrightarrow> c \<in> set ''0123456789''"
proof
  assume "in_range (CHR ''0'', CHR ''9'') c"
  then have b: "48 \<le> (of_char c :: nat)" "(of_char c :: nat) \<le> 57"
    by (simp_all add: in_range_def)
  have e: "c = d \<longleftrightarrow> (of_char c :: nat) = of_char d" for d
    by simp
  have "c = CHR ''0'' \<or> c = CHR ''1'' \<or> c = CHR ''2'' \<or> c = CHR ''3'' \<or> c = CHR ''4'' \<or>
      c = CHR ''5'' \<or> c = CHR ''6'' \<or> c = CHR ''7'' \<or> c = CHR ''8'' \<or> c = CHR ''9''"
    unfolding e using b by (simp del: of_char_eq_iff) arith
  then show "c \<in> set ''0123456789''"
    by auto
next
  assume "c \<in> set ''0123456789''"
  then show "in_range (CHR ''0'', CHR ''9'') c"
    by (auto simp: in_range_def)
qed

lemma in_class_typePattern:
  "in_class typePattern c \<longleftrightarrow>
     c \<in> set ''abcdefghijklmnopqrstuvwxyz'' \<or> c \<in> set ''0123456789''"
  by (simp add: in_class_def typePattern_def lower_range digit_range del: set_simps)

lemma match_plus_end_iff: "match_plus_end cls s \<longleftrightarrow> s \<noteq> [] \<and> (\<forall>c \<in> set s. in_class cls c)"
  by (induction s) auto


lemma validateEventType_iff:
  "validateEventType s \<longleftrightarrow>
     s \<noteq> [] \<and> (\<forall>c \<in> set s. c \<in> set ''abcdefghijklmnopqrstuvwxyz'' \<or> c \<in> set ''0123456789'')"
  unfolding validateEventType_def match_plus_end_iff in_class_typePattern ..

lemma Handler_Start_rejects:
  "\<not> validateEventType t \<Longrightarrow>
   EventHandler_Start svc (JSONObject (Some t)) st =
     (JSON StatusBadRequest (ErrorResponse (if t = [] then MsgTypeRequired else MsgTypeFormat)), st)"
  by (simp add: EventHandler_Start_def ShouldBindJSON_def)

lemma Handler_Finish_rejects:
  "\<not> validateEventType t \<Longrightarrow>
   EventHandler_Finish svc (JSONObject (Some t)) st =
     (JSON StatusBadRequest (ErrorResponse (if t = [] then MsgTypeRequired else MsgTypeFormat)), st)"
  by (simp add: EventHandler_Finish_def ShouldBindJSON_def)

lemma validateEventType_nonempty: "validateEventType t \<Longrightarrow> t \<noteq> []"
  by (simp add: validateEventType_iff)

lemma Handler_Start_accepts:
  "validateEventType t \<Longrightarrow>
   EventHandler_Start svc (JSONObject (Some t)) st =
     (case svc t st of
        (Inl err, st') \<Rightarrow> (JSON StatusInternalServerError (ErrorResponse MsgCreateFailed), st')
      | (Inr event, st') \<Rightarrow> (JSON StatusOK (EventJSON (ToResponse event)), st'))"
  by (frule validateEventType_nonempty) (simp add: EventHandler_Start_def ShouldBindJSON_def)

lemma Handler_Finish_accepts:
  "validateEventType t \<Longrightarrow>
   EventHandler_Finish svc (JSONObject (Some t)) st =
     (case svc t st of
        (Inl err, st') \<Rightarrow>
          if err = ErrNoDocuments
          then (JSON StatusNotFound (ErrorResponse MsgNoActiveEvent), st')
          else (JSON StatusInternalServerError (ErrorResponse MsgFinishFailed), st')
      | (Inr event, st') \<Rightarrow> (JSON StatusOK (EventJSON (ToResponse event)), st'))"
  by (frule validateEventType_nonempty) (simp add: EventHandler_Finish_def ShouldBindJSON_def)

text \<open>
  Claim C6. \<open>validateEventType\<close> holds of a string exactly when the string is not empty
  and each of its characters is a lowercase ASCII letter or an ASCII digit. The
  handlers of Start and Finish answer a type that fails the check with status 400 and
  leave the state as it is, whatever the service they hold would do: the service is
  not called. A type that passes is handed to the service as it is, and the answer
  is built from what the service returns. \<open>meeting123\<close> passes; \<open>Meeting\<close>,
  \<open>meeting-1\<close> and \<open>meeting 1\<close> fail.
\<close>

theorem type_format_validation:
  "(validateEventType s \<longleftrightarrow>
      s \<noteq> [] \<and>
      (\<forall>c \<in> set s. c \<in> set ''abcdefghijklmnopqrstuvwxyz'' \<or> c \<in> set ''0123456789'')) \<and>
   (\<not> validateEventType t \<longrightarrow>
      EventHandler_Start svc (JSONObject (Some t)) st =
        (JSON StatusBadRequest
           (ErrorResponse (if t = [] then MsgTypeRequired else MsgTypeFormat)), st) \<and>
      EventHandler_Finish svc' (JSONObject (Some t)) st =
        (JSON StatusBadRequest
           (ErrorResponse (if t = [] then MsgTypeRequired else MsgTypeFormat)), st)) \<and>
   (validateEventType t \<longrightarrow>
      EventHandler_Start svc (JSONObject (Some t)) st =
        (case svc t st of
           (Inl err, st') \<Rightarrow> (JSON StatusInternalServerError (ErrorResponse MsgCreateFailed), st')
         | (Inr event, st') \<Rightarrow> (JSON StatusOK (EventJSON (ToResponse event)), st')) \<and>
      EventHandler_Finish svc' (JSONObject (Some t)) st =
        (case svc' t st of
           (Inl err, st') \<Rightarrow>
             if err = ErrNoDocuments
             then (JSON StatusNotFound (ErrorResponse MsgNoActiveEvent), st')
             else (JSON StatusInternalServerError (ErrorResponse MsgFinishFailed), st')
         | (Inr event, st') \<Rightarrow> (JSON StatusOK (EventJSON (ToResponse event)), st'))) \<and>
   validateEventType ''meeting123'' \<and> \<not> validateEventType ''Meeting'' \<and>
   \<not> validateEventType ''meeting-1'' \<and> \<not> validateEventType ''meeting 1''"
proof (intro conjI impI)
  show "validateEventType s \<longleftrightarrow>
      s \<noteq> [] \<and>
      (\<forall>c \<in> set s. c \<in> set ''abcdefghijklmnopqrstuvwxyz'' \<or> c \<in> set ''0123456789'')"
    by (rule validateEventType_iff)
  show "validateEventType ''meeting123''" "\<not> validateEventType ''Meeting''"
    "\<not> validateEventType ''meeting-1''" "\<not> validateEventType ''meeting 1''"
    by (simp_all add: validateEventType_iff)
qed (simp_all add: Handler_Start_rejects Handler_Finish_rejects Handler_Start_accepts
    Handler_Finish_accepts)

theorem type_format_validation_witness:
  "\<not> validateEventType ''Meeting'' \<and>
   EventHandler_Start (EventService_Start None None 20000001) (JSONObject (Some ''Meeting'')) store2 =
     (JSON StatusBadRequest (ErrorResponse MsgTypeFormat), store2) \<and>
   EventHandler_Finish (EventService_Finish None 20000001) (JSONObject (Some ''Meeting'')) store2 =
     (JSON StatusBadRequest (ErrorResponse MsgTypeFormat), store2) \<and>
   validateEventType ''meeting123'' \<and>
   status (fst (EventHandler_Start (EventService_Start None None 20000001)
                  (JSONObject (Some ''meeting123'')) store2)) = StatusOK \<and>
   status (fst (EventHandler_Finish (EventService_Finish None 20000001)
                  (JSONObject (Some ''meeting123'')) store2)) = StatusNotFound"
  using type_format_validation [of "''meeting123''" "''Meeting''" "EventService_Start None None 20000001"
      store2 "EventService_Finish None 20000001"]
    type_format_validation [of "''meeting123''" "''meeting123''" "EventService_Start None None 20000001"
      store2 "EventService_Finish None 20000001"]
  by (simp add: Service_Start_cases Service_Finish_eq Finish_none has_active_def is_active_def
      JSON_def)

section \<open>Validation of the pagination parameters\<close>

lemma parse_digits_digits: "parse_digits ds acc = Some n \<Longrightarrow> list_all is_digit ds"
  by (induction ds arbitrary: acc) (auto split: if_splits)

lemma Atoi_shape:
  assumes "Atoi s = Inr n"
  shows "\<exists>ds. (s = ds \<or> s = CHR ''-'' # ds \<or> s = CHR ''+'' # ds) \<and> ds \<noteq> [] \<and>
           list_all is_digit ds \<and> - (2 ^ 63) \<le> n \<and> n \<le> 2 ^ 63 - 1"
proof (cases s)
  case Nil
  with assms show ?thesis by (simp add: Atoi_def)
next
  case (Cons c cs)
  let ?ds = "if c = CHR ''-'' \<or> c = CHR ''+'' then cs else s"
  from assms Cons obtain v where p: "parse_digits ?ds 0 = Some v" and ne: "?ds \<noteq> []"
      and r: "- (2 ^ 63) \<le> n \<and> n \<le> 2 ^ 63 - 1"
    by (auto simp: Atoi_def Let_def split: if_splits option.splits)
  from parse_digits_digits[OF p] have "list_all is_digit ?ds" .
  with ne r Cons show ?thesis
    by (intro exI[of _ ?ds]) (auto split: if_splits)
qed

lemma Query_empty_iff: "Query q key = [] \<longleftrightarrow> q key = None \<or> q key = Some []"
  by (simp add: Query_def split: option.splits)

lemma Query_Some: "q key = Some v \<Longrightarrow> Query q key = v"
  by (simp add: Query_def)

text \<open>
  Claim C7, as amended. A value of \<open>offset\<close> that is not empty has to be read by \<open>Atoi\<close>
  as an integer that is not negative, and a value of \<open>limit\<close> that is not empty as an
  integer from 0 to 100; otherwise the handler answers 400 and leaves the state as it
  is, whatever the service it holds would do: the list operation is not called. A
  parameter that is left out, and a parameter that is given with an empty value,
  stands for 0. When both pass, the service is called with exactly the two integers
  read, not with values moved into the range. What \<open>Atoi\<close> reads as an integer is an
  optional sign followed by decimal digits only, within the range of a 64-bit
  integer.
\<close>

theorem pagination_validation:
  "((\<exists>v. q ''offset'' = Some v \<and> v \<noteq> [] \<and> (\<forall>n. Atoi v = Inr n \<longrightarrow> n < 0)) \<longrightarrow>
      EventHandler_List svc q st =
        (JSON StatusBadRequest (ErrorResponse MsgOffsetInvalid), st)) \<and>
   (((q ''offset'' = None \<or> q ''offset'' = Some []) \<and> k = 0 \<or>
     (\<exists>v. q ''offset'' = Some v \<and> v \<noteq> [] \<and> Atoi v = Inr k \<and> 0 \<le> k)) \<longrightarrow>
      ((\<exists>v. q ''limit'' = Some v \<and> v \<noteq> [] \<and> (\<forall>n. Atoi v = Inr n \<longrightarrow> n < 0 \<or> 100 < n)) \<longrightarrow>
         EventHandler_List svc q st =
           (JSON StatusBadRequest (ErrorResponse MsgLimitInvalid), st)) \<and>
      (((q ''limit'' = None \<or> q ''limit'' = Some []) \<and> m = 0 \<or>
        (\<exists>v. q ''limit'' = Some v \<and> v \<noteq> [] \<and> Atoi v = Inr m \<and> 0 \<le> m \<and> m \<le> 100)) \<longrightarrow>
         EventHandler_List svc q st =
           (case svc k m (Query q ''type'') st of
              (Inl err, st') \<Rightarrow>
                (JSON StatusInternalServerError (ErrorResponse MsgListFailed), st')
            | (Inr events, st') \<Rightarrow> (JSON StatusOK (EventsJSON events), st')))) \<and>
   (Atoi s = Inr n \<longrightarrow>
      (\<exists>ds. (s = ds \<or> s = CHR ''-'' # ds \<or> s = CHR ''+'' # ds) \<and> ds \<noteq> [] \<and>
         list_all is_digit ds \<and> - (2 ^ 63) \<le> n \<and> n \<le> 2 ^ 63 - 1))"
proof (intro conjI impI)
  assume "\<exists>v. q ''offset'' = Some v \<and> v \<noteq> [] \<and> (\<forall>n. Atoi v = Inr n \<longrightarrow> n < 0)"
  then have "Query q ''offset'' \<noteq> [] \<and> (\<forall>n. Atoi (Query q ''offset'') = Inr n \<longrightarrow> n < 0)"
    by (auto simp: Query_Some)
  then show "EventHandler_List svc q st =
        (JSON StatusBadRequest (ErrorResponse MsgOffsetInvalid), st)"
    by (auto simp: EventHandler_List_def Let_def split: sum.splits)
next
  assume "(q ''offset'' = None \<or> q ''offset'' = Some []) \<and> k = 0 \<or>
     (\<exists>v. q ''offset'' = Some v \<and> v \<noteq> [] \<and> Atoi v = Inr k \<and> 0 \<le> k)"
  then have o: "Query q ''offset'' = [] \<and> k = 0 \<or>
             Query q ''offset'' \<noteq> [] \<and> Atoi (Query q ''offset'') = Inr k \<and> 0 \<le> k"
    by (auto simp: Query_Some Query_empty_iff)
  assume "\<exists>v. q ''limit'' = Some v \<and> v \<noteq> [] \<and> (\<forall>n. Atoi v = Inr n \<longrightarrow> n < 0 \<or> 100 < n)"
  then have "Query q ''limit'' \<noteq> [] \<and>
      (\<forall>n. Atoi (Query q ''limit'') = Inr n \<longrightarrow> n < 0 \<or> 100 < n)"
    by (auto simp: Query_Some)
  with o show "EventHandler_List svc q st =
           (JSON StatusBadRequest (ErrorResponse MsgLimitInvalid), st)"
    by (auto simp: EventHandler_List_def Let_def split: sum.splits)
next
  assume "(q ''offset'' = None \<or> q ''offset'' = Some []) \<and> k = 0 \<or>
     (\<exists>v. q ''offset'' = Some v \<and> v \<noteq> [] \<and> Atoi v = Inr k \<and> 0 \<le> k)"
  then have o: "Query q ''offset'' = [] \<and> k = 0 \<or>
             Query q ''offset'' \<noteq> [] \<and> Atoi (Query q ''offset'') = Inr k \<and> 0 \<le> k"
    by (auto simp: Query_Some Query_empty_iff)
  assume "(q ''limit'' = None \<or> q ''limit'' = Some []) \<and> m = 0 \<or>
        (\<exists>v. q ''limit'' = Some v \<and> v \<noteq> [] \<and> Atoi v = Inr m \<and> 0 \<le> m \<and> m \<le> 100)"
  then have "Query q ''limit'' = [] \<and> m = 0 \<or>
        Query q ''limit'' \<noteq> [] \<and> Atoi (Query q ''limit'') = Inr m \<and> 0 \<le> m \<and> m \<le> 100"
    by (auto simp: Query_Some Query_empty_iff)
  with o show "EventHandler_List svc q st =
           (case svc k m (Query q ''type'') st of
              (Inl err, st') \<Rightarrow>
                (JSON StatusInternalServerError (ErrorResponse MsgListFailed), st')
            | (Inr events, st') \<Rightarrow> (JSON StatusOK (EventsJSON events), st'))"
    by (auto simp: EventHandler_List_def Let_def)
next
  assume "Atoi s = Inr n"
  then show "\<exists>ds. (s = ds \<or> s = CHR ''-'' # ds \<or> s = CHR ''+'' # ds) \<and> ds \<noteq> [] \<and>
         list_all is_digit ds \<and> - (2 ^ 63) \<le> n \<and> n \<le> 2 ^ 63 - 1"
    by (rule Atoi_shape)
qed

lemma Atoi_examples:
  "Atoi ''-1'' = Inr (- 1)" "Atoi ''abc'' = Inl ErrSyntax" "Atoi ''101'' = Inr 101"
  "Atoi ''100'' = Inr 100" "Atoi ''3'' = Inr 3" "Atoi ''1.5'' = Inl ErrSyntax"
  "Atoi ''9223372036854775808'' = Inl ErrRange" "Atoi [] = Inl ErrSyntax"
  by (simp_all add: Atoi_def is_digit_def in_range_def digit_val_def)

theorem pagination_validation_witness:
  "EventHandler_List (EventService_List ID None None) [''offset'' \<mapsto> ''-1''] store3 =
     (JSON StatusBadRequest (ErrorResponse MsgOffsetInvalid), store3) \<and>
   EventHandler_List (EventService_List ID None None) [''offset'' \<mapsto> ''abc''] store3 =
     (JSON StatusBadRequest (ErrorResponse MsgOffsetInvalid), store3) \<and>
   EventHandler_List (EventService_List ID None None) [''limit'' \<mapsto> ''101''] store3 =
     (JSON StatusBadRequest (ErrorResponse MsgLimitInvalid), store3) \<and>
   EventHandler_List (EventService_List ID None None) [''limit'' \<mapsto> ''-1''] store3 =
     (JSON StatusBadRequest (ErrorResponse MsgLimitInvalid), store3) \<and>
   EventHandler_List (EventService_List ID None None)
       [''offset'' \<mapsto> ''1'', ''limit'' \<mapsto> ''100''] store3 =
     (JSON StatusOK (EventsJSON [ev_call_done, ev_meeting]), store3) \<and>
   EventHandler_List (EventService_List ID None None) Map.empty store3 =
     (JSON StatusOK (EventsJSON [ev_call, ev_call_done, ev_meeting]), store3)"
  using pagination_validation [of "[''offset'' \<mapsto> ''-1'']"
      "EventService_List ID None None" store3 0 0 "''-1''" "- 1"]
    pagination_validation [of "[''offset'' \<mapsto> ''abc'']"
      "EventService_List ID None None" store3 0 0 "''3''" 3]
    pagination_validation [of "[''limit'' \<mapsto> ''101'']"
      "EventService_List ID None None" store3 0 0 "''3''" 3]
    pagination_validation [of "[''limit'' \<mapsto> ''-1'']"
      "EventService_List ID None None" store3 0 0 "''3''" 3]
    pagination_validation [of "[''offset'' \<mapsto> ''1'', ''limit'' \<mapsto> ''100'']"
      "EventService_List ID None None" store3 1 100 "''3''" 3]
    pagination_validation [of Map.empty "EventService_List ID None None" store3 0 0 "''3''" 3]
  by (simp add: Atoi_def is_digit_def in_range_def digit_val_def Query_def Service_List_ok
      page_def matching_def)

text \<open>
  The claim as it is worded has every parameter that is present parse as an integer
  and has a string that is no integer answered with 400. The empty string is no
  integer for \<open>Atoi\<close>; a request that gives \<open>offset\<close> and \<open>limit\<close> with empty values is
  served with status 200, as one that leaves them out.
\<close>

theorem pagination_empty_value_counterexample:
  "Atoi [] = Inl ErrSyntax \<and>
   EventHandler_List (EventService_List ID None None)
       [''offset'' \<mapsto> [], ''limit'' \<mapsto> []] store3 =
     (JSON StatusOK (EventsJSON [ev_call, ev_call_done, ev_meeting]), store3)"
  by (simp add: Atoi_def EventHandler_List_def Query_def EventService_List_def
      EventRepository_List_def Find_def cursor_All_def apply_sort_def apply_skip_def
      apply_limit_def matches_def)

section \<open>Where the type is checked and where it is not\<close>

lemma Handler_List_rejects_iff:
  "status (fst (EventHandler_List svc q st)) = StatusBadRequest \<longleftrightarrow>
     (Query q ''offset'' \<noteq> [] \<and> (\<forall>n. Atoi (Query q ''offset'') = Inr n \<longrightarrow> n < 0)) \<or>
     (Query q ''limit'' \<noteq> [] \<and> (\<forall>n. Atoi (Query q ''limit'') = Inr n \<longrightarrow> n < 0 \<or> 100 < n))"
  by (auto simp: EventHandler_List_def Let_def JSON_def StatusBadRequest_def StatusOK_def
      StatusInternalServerError_def split: sum.splits prod.splits)

lemma Query_other: "key \<noteq> key' \<Longrightarrow> Query (q(key' \<mapsto> v)) key = Query q key"
  by (simp add: Query_def)

lemma types_ok_Service_Start:
  "types_ok col \<Longrightarrow> validateEventType t \<Longrightarrow>
   types_ok (snd (EventService_Start f1 f2 now t col))"
  by (simp add: Service_Start_cases types_ok_def split: option.splits)

lemma types_ok_Handler_Start:
  "types_ok col \<Longrightarrow>
   types_ok (snd (EventHandler_Start (EventService_Start f1 f2 now) request col))"
proof -
  assume ok: "types_ok col"
  show ?thesis
  proof (cases "ShouldBindJSON request")
    case (Inl err)
    with ok show ?thesis by (simp add: EventHandler_Start_def)
  next
    case (Inr req)
    show ?thesis
    proof (cases "validateEventType (req_Type req)")
      case False
      with ok Inr show ?thesis by (simp add: EventHandler_Start_def)
    next
      case True
      from types_ok_Service_Start[OF ok True, of f1 f2 now] Inr True show ?thesis
        by (auto simp: EventHandler_Start_def split: prod.splits sum.splits)
    qed
  qed
qed

text \<open>
  Claim C10, as amended. The service and the repository take any string as a type:
  for every string \<open>t\<close> with no active row, the empty string and strings that fail the
  pattern included, \<open>Start\<close> of the service succeeds and appends an active row whose
  type is \<open>t\<close>. The handler of List hands the value of the parameter \<open>type\<close> to the
  service as it is: whether the request is answered with status 400 does not depend
  on that value, and without pagination parameters the answer is status 200 with the
  rows whose type is that value, all of them and no other, and with every row when
  the value is empty. So a filter that fails the pattern is not refused; it gives no
  rows when no stored row has that type, which is so for a filter that is not empty
  when the types of the stored rows all pass the pattern, as they do as long as rows
  come from the handler of Start.
\<close>

theorem type_is_checked_by_Start_and_Finish_handlers_only:
  "(\<not> has_active t col \<longrightarrow>
      (\<exists>e r col'. EventService_Start None None now t col = (Inr e, col') \<and>
         Type e = t \<and> State e = Active \<and> docs col' = docs col @ [r] \<and>
         ID r = ID e \<and> Type r = t \<and> State r = Active)) \<and>
   (status (fst (EventHandler_List svc (q(''type'' \<mapsto> f)) st)) = StatusBadRequest \<longleftrightarrow>
    status (fst (EventHandler_List svc (q(''type'' \<mapsto> f')) st)) = StatusBadRequest) \<and>
   (q ''offset'' = None \<and> q ''limit'' = None \<longrightarrow>
      (\<exists>es. EventHandler_List (EventService_List tie None None) (q(''type'' \<mapsto> f)) col =
               (JSON StatusOK (EventsJSON es), col) \<and>
            mset es = mset (if f \<noteq> [] then filter (\<lambda>e. Type e = f) (docs col) else docs col))) \<and>
   (f \<noteq> [] \<and> \<not> validateEventType f \<and> types_ok col \<longrightarrow>
      filter (\<lambda>e. Type e = f) (docs col) = []) \<and>
   (types_ok col \<longrightarrow>
      types_ok (snd (EventHandler_Start (EventService_Start f1 f2 now') request col)))"
proof (intro conjI impI)
  assume "\<not> has_active t col"
  then have "find (is_active t) (docs col) = None"
    by (simp add: find_None_has_active)
  then show "\<exists>e r col'. EventService_Start None None now t col = (Inr e, col') \<and>
         Type e = t \<and> State e = Active \<and> docs col' = docs col @ [r] \<and>
         ID r = ID e \<and> Type r = t \<and> State r = Active"
    by (simp add: Service_Start_cases)
next
  show "status (fst (EventHandler_List svc (q(''type'' \<mapsto> f)) st)) = StatusBadRequest \<longleftrightarrow>
    status (fst (EventHandler_List svc (q(''type'' \<mapsto> f')) st)) = StatusBadRequest"
    by (simp add: Handler_List_rejects_iff Query_other)
next
  assume "q ''offset'' = None \<and> q ''limit'' = None"
  then have "Query (q(''type'' \<mapsto> f)) ''offset'' = []" "Query (q(''type'' \<mapsto> f)) ''limit'' = []"
    "Query (q(''type'' \<mapsto> f)) ''type'' = f"
    by (simp_all add: Query_def)
  then have h: "EventHandler_List (EventService_List tie None None) (q(''type'' \<mapsto> f)) col =
      (JSON StatusOK (EventsJSON
         (sort_key (\<lambda>e. - StartedAt e) (sort_key tie (matching f (docs col))))), col)"
    by (simp add: EventHandler_List_def Service_List_ok page_def)
  have "mset (sort_key (\<lambda>e. - StartedAt e) (sort_key tie (matching f (docs col)))) =
      mset (if f \<noteq> [] then filter (\<lambda>e. Type e = f) (docs col) else docs col)"
    by (simp add: matching_def)
  with h show "\<exists>es. EventHandler_List (EventService_List tie None None) (q(''type'' \<mapsto> f)) col =
               (JSON StatusOK (EventsJSON es), col) \<and>
            mset es = mset (if f \<noteq> [] then filter (\<lambda>e. Type e = f) (docs col) else docs col)"
    by blast
next
  assume a: "f \<noteq> [] \<and> \<not> validateEventType f \<and> types_ok col"
  then have "\<not> list_ex (\<lambda>e. Type e = f) (docs col)"
    by (auto simp: list_ex_iff list_all_iff types_ok_def)
  with a show "filter (\<lambda>e. Type e = f) (docs col) = []"
    by (simp add: list_ex_iff filter_empty_conv)
next
  assume "types_ok col"
  then show "types_ok (snd (EventHandler_Start (EventService_Start f1 f2 now') request col))"
    by (rule types_ok_Handler_Start)
qed

theorem type_is_checked_by_Start_and_Finish_handlers_only_witness:
  "\<not> has_active [] store2 \<and> \<not> validateEventType [] \<and>
   fst (EventService_Start None None 20000001 [] store2) =
     Inr \<lparr>ID = 2, Type = [], State = Active, StartedAt = 20000001, FinishedAt = None\<rparr> \<and>
   \<not> has_active ''Meeting 1!'' store2 \<and> \<not> validateEventType ''Meeting 1!'' \<and>
   fst (EventService_Start None None 20000001 ''Meeting 1!'' store2) =
     Inr \<lparr>ID = 2, Type = ''Meeting 1!'', State = Active, StartedAt = 20000001,
          FinishedAt = None\<rparr> \<and>
   types_ok store2 \<and>
   EventHandler_List (EventService_List ID None None) [''type'' \<mapsto> ''Meeting 1!''] store2 =
     (JSON StatusOK (EventsJSON []), store2) \<and>
   types_ok (snd (EventHandler_Start (EventService_Start None None 20000001)
                    (JSONObject (Some ''call'')) store2))"
  using type_is_checked_by_Start_and_Finish_handlers_only [of "[]" store2 20000001
      "EventService_List ID None None" Map.empty "''Meeting 1!''" store2 "[]" ID None None
      20000001 "JSONObject (Some ''call'')"]
    type_is_checked_by_Start_and_Finish_handlers_only [of "''Meeting 1!''" store2 20000001
      "EventService_List ID None None" Map.empty "''Meeting 1!''" store2 "[]" ID None None
      20000001 "JSONObject (Some ''call'')"]
  by (simp add: has_active_def is_active_def validateEventType_iff Service_Start_cases
      types_ok_def)

text \<open>
  The claim as it is worded has a filter that fails the pattern match no rows. The
  service has stored a row of type \<open>Meeting 1!\<close>, which fails the pattern; List with
  that filter returns the row. The empty string fails the pattern too, and List with
  the empty filter returns every row.
\<close>

theorem failing_filter_matches_rows_counterexample:
  "\<not> validateEventType ''Meeting 1!'' \<and>
   EventService_Start None None 20000000 ''Meeting 1!'' store2 = (Inr ev_odd, store_odd) \<and>
   EventHandler_List (EventService_List ID None None) [''type'' \<mapsto> ''Meeting 1!''] store_odd =
     (JSON StatusOK (EventsJSON [ev_odd]), store_odd) \<and>
   \<not> validateEventType [] \<and>
   EventHandler_List (EventService_List ID None None) [''type'' \<mapsto> []] store_odd =
     (JSON StatusOK (EventsJSON [ev_odd, ev_call_done, ev_meeting]), store_odd)"
  by (simp add: validateEventType_def typePattern_def in_class_def in_range_def
      EventService_Start_def EventRepository_FindActive_def FindOne_def
      EventRepository_Create_def InsertOne_def Marshal_def bson_DateTime_def NilObjectID_def
      EventHandler_List_def Query_def Atoi_def EventService_List_def
      EventRepository_List_def Find_def cursor_All_def apply_sort_def apply_skip_def
      apply_limit_def matches_def Let_def)

end
